theory Spec2Isabelle
  imports Main
begin

section \<open>Python values and exceptions\<close>

text \<open>
  The values that reach \<^verbatim>\<open>str()\<close> and \<^verbatim>\<open>hasattr(v, '__iter__')\<close> in
  \<^verbatim>\<open>resolve_template_parameters\<close>: Python 2 byte strings and lists of values.
  The module is Python 2 code (\<^verbatim>\<open>iteritems\<close>, \<^verbatim>\<open>ex.message\<close>), where a
  string has no \<^verbatim>\<open>__iter__\<close> attribute and a list has one.
\<close>

datatype pyval = PStr string | PList "pyval list"

text \<open>
  The exceptions that travel through \<^verbatim>\<open>rainbow/cloudformation.py\<close>.
  \<open>ClientError\<close> and \<open>EndpointConnectionError\<close> are botocore's (line 4 of the
  source), \<open>CloudformationException\<close> is the module's own (line 19), \<open>IndexError\<close>
  is what \<^verbatim>\<open>['Stacks'][0]\<close> raises on an empty list, and
  \<open>ParameterResolutionError\<close> is what the parameter source raises for a key that
  it cannot find. A \<open>ClientError\<close> carries its \<^verbatim>\<open>message\<close>.
\<close>

datatype exn =
    ClientError string
  | EndpointConnectionError
  | CloudformationException string
  | IndexError
  | ParameterResolutionError pyval

text \<open>
  \<^verbatim>\<open>except ClientError as ex: raise CloudformationException(ex.message)\<close>:
  a \<open>ClientError\<close> is replaced, every other exception passes through the
  \<^verbatim>\<open>try\<close> statement unchanged.
\<close>

fun except_ClientError :: "exn \<Rightarrow> exn" where
  "except_ClientError (ClientError message) = CloudformationException message"
| "except_ClientError ex = ex"

subsection \<open>\<^verbatim>\<open>str\<close>, \<^verbatim>\<open>repr\<close> and \<^verbatim>\<open>join\<close>\<close>

text \<open>\<^verbatim>\<open>sep.join(xs)\<close> on a list of strings.\<close>

fun join :: "string \<Rightarrow> string list \<Rightarrow> string" where
  "join sep [] = []"
| "join sep [x] = x"
| "join sep (x # y # ys) = x @ sep @ join sep (y # ys)"

text \<open>
  \<^verbatim>\<open>repr\<close> of a Python 2 byte string: single quotes, unless the string holds a
  single quote and no double quote; the quote and the backslash are escaped, tab,
  newline and carriage return are written \<^verbatim>\<open>\t\<close>, \<^verbatim>\<open>\n\<close>, \<^verbatim>\<open>\r\<close>,
  and every other byte outside the printable ASCII range is written as \<^verbatim>\<open>\xNN\<close>.
\<close>

definition hex_digit :: "nat \<Rightarrow> char" where
  "hex_digit n = ''0123456789abcdef'' ! (n mod 16)"

definition repr_char :: "char \<Rightarrow> char \<Rightarrow> string" where
  "repr_char quote c =
     (if c = quote \<or> c = CHR 0x5C then [CHR 0x5C, c]
      else if c = CHR 0x09 then [CHR 0x5C, CHR ''t'']
      else if c = CHR 0x0A then [CHR 0x5C, CHR ''n'']
      else if c = CHR 0x0D then [CHR 0x5C, CHR ''r'']
      else if (of_char c :: nat) < 0x20 \<or> (of_char c :: nat) \<ge> 0x7F
        then [CHR 0x5C, CHR ''x'', hex_digit (of_char c div 16), hex_digit (of_char c)]
      else [c])"

definition repr_str :: "string \<Rightarrow> string" where
  "repr_str s =
     (let quote = (if CHR 0x27 \<in> set s \<and> CHR 0x22 \<notin> set s then CHR 0x22 else CHR 0x27)
      in [quote] @ concat (map (repr_char quote) s) @ [quote])"

fun py_repr :: "pyval \<Rightarrow> string" where
  "py_repr (PStr s) = repr_str s"
| "py_repr (PList xs) = ''['' @ join '', '' (map py_repr xs) @ '']''"

text \<open>\<^verbatim>\<open>str(v)\<close>: a string is itself, a list is written as its \<^verbatim>\<open>repr\<close>.\<close>

fun py_str :: "pyval \<Rightarrow> string" where
  "py_str (PStr s) = s"
| "py_str (PList xs) = py_repr (PList xs)"

text \<open>\<^verbatim>\<open>hasattr(v, '__iter__')\<close> in Python 2, and the elements that iterating \<open>v\<close> gives.\<close>

fun hasattr_iter :: "pyval \<Rightarrow> bool" where
  "hasattr_iter (PStr s) = False"
| "hasattr_iter (PList xs) = True"

fun py_iter :: "pyval \<Rightarrow> pyval list" where
  "py_iter (PList xs) = xs"
| "py_iter (PStr s) = map (\<lambda>c. PStr [c]) s"

text \<open>\<^verbatim>\<open>s.endswith(suffix)\<close>.\<close>

definition endswith :: "string \<Rightarrow> string \<Rightarrow> bool" where
  "endswith s suf \<longleftrightarrow>
     length suf \<le> length s \<and> drop (length s - length suf) s = suf"

text \<open>
  \<^verbatim>\<open>x or None\<close> on an integer, and the slice \<^verbatim>\<open>xs[:stop]\<close>: a negative
  \<open>stop\<close> counts from the end, and a \<open>stop\<close> outside the list is clamped.
\<close>

definition or_None :: "int \<Rightarrow> int option" where
  "or_None x = (if x = 0 then None else Some x)"

definition slice_to :: "'a list \<Rightarrow> int option \<Rightarrow> 'a list" where
  "slice_to xs stop =
     (case stop of
        None \<Rightarrow> xs
      | Some j \<Rightarrow> if j < 0 then take (length xs - nat (- j)) xs else take (nat j) xs)"

section \<open>Template parameters\<close>

text \<open>
  A Python 2 \<^verbatim>\<open>dict\<close>, as far as this module reads it: \<open>declared\<close> holds the
  items in the order in which the template declares them, \<open>iteritems\<close> holds them in
  the order in which \<^verbatim>\<open>d.iteritems()\<close> enumerates them. A Python 2 dict is
  enumerated in the order of its hash table, which the declaration order does not
  decide: the two lists hold the same items (\<open>wf_dict\<close>) and may differ in order.
  The source only ever calls \<^verbatim>\<open>iteritems()\<close>.
\<close>

record ('k, 'v) pydict =
  declared :: "('k \<times> 'v) list"
  iteritems :: "('k \<times> 'v) list"

definition wf_dict :: "('k, 'v) pydict \<Rightarrow> bool" where
  "wf_dict d \<longleftrightarrow>
     distinct (map fst (declared d)) \<and> distinct (map fst (iteritems d)) \<and>
     set (iteritems d) = set (declared d)"

text \<open>
  A parameter definition is a dict that may hold the key \<^verbatim>\<open>'Default'\<close>; a template
  is a dict that may hold the key \<^verbatim>\<open>'Parameters'\<close>.
\<close>

record parameter_definition =
  Default :: "pyval option"

record template =
  Parameters :: "(pyval, parameter_definition) pydict option"

text \<open>
  Modelled from the spec: the class \<^verbatim>\<open>DataSourceCollection\<close> is not among the
  source files. The spec gives it as a capability "lookup(key) -> value, searching a
  chain of nested scopes, raising NotFound if absent at every level", whose values are
  scalars or sequences of scalars, and speaks of the source having "no explicit
  override for that key" for \<^verbatim>\<open>parameter in datasource_collection\<close>. A collection
  is the chain of scopes, the nearest first; a scope is a list of key and value pairs.
\<close>

type_synonym datasource_collection = "(pyval \<times> pyval) list list"

definition contains :: "datasource_collection \<Rightarrow> pyval \<Rightarrow> bool" where
  "contains datasource_collection key \<longleftrightarrow>
     list_ex (\<lambda>scope. map_of scope key \<noteq> None) datasource_collection"

fun get_parameter_recursive :: "datasource_collection \<Rightarrow> pyval \<Rightarrow> exn + pyval" where
  "get_parameter_recursive [] key = Inl (ParameterResolutionError key)"
| "get_parameter_recursive (scope # scopes) key =
     (case map_of scope key of
        Some v \<Rightarrow> Inr v
      | None \<Rightarrow> get_parameter_recursive scopes key)"

text \<open>
  \<^verbatim>\<open>resolve_template_parameters\<close> (lines 48 to 71). The loop runs over
  \<^verbatim>\<open>template.get('Parameters', {}).iteritems()\<close> and appends one dict to
  \<open>parameters\<close> per item; an exception of the lookup leaves the function.
\<close>

record resolved_parameter =
  ParameterKey :: string
  ParameterValue :: string

fun resolve_loop ::
  "datasource_collection \<Rightarrow> (pyval \<times> parameter_definition) list \<Rightarrow>
   resolved_parameter list \<Rightarrow> exn + resolved_parameter list" where
  "resolve_loop datasource_collection [] parameters = Inr parameters"
| "resolve_loop datasource_collection ((parameter, parameter_definition) # rest) parameters =
     (if Default parameter_definition \<noteq> None \<and> \<not> contains datasource_collection parameter
      then
        (let parameter_value = the (Default parameter_definition)
         in resolve_loop datasource_collection rest
              (parameters @ [\<lparr>ParameterKey = py_str parameter,
                              ParameterValue = py_str parameter_value\<rparr>]))
      else
        (case get_parameter_recursive datasource_collection parameter of
           Inl ex \<Rightarrow> Inl ex
         | Inr looked_up \<Rightarrow>
            (let parameter_value =
                   (if hasattr_iter looked_up
                    then PStr (join '','' (map py_str (py_iter looked_up)))
                    else looked_up)
             in resolve_loop datasource_collection rest
                  (parameters @ [\<lparr>ParameterKey = py_str parameter,
                                  ParameterValue = py_str parameter_value\<rparr>]))))"

text \<open>\<^verbatim>\<open>template.get('Parameters', {}).iteritems()\<close>.\<close>

definition parameter_items :: "template \<Rightarrow> (pyval \<times> parameter_definition) list" where
  "parameter_items template =
     (case Parameters template of None \<Rightarrow> [] | Some d \<Rightarrow> iteritems d)"

definition resolve_template_parameters ::
  "template \<Rightarrow> datasource_collection \<Rightarrow> exn + resolved_parameter list" where
  "resolve_template_parameters template datasource_collection =
     resolve_loop datasource_collection (parameter_items template) []"

text \<open>
  The relation between an item of the template and the parameter resolved for it, in
  the words of the spec: the key as a string; the default as a string when the
  definition has one and the source holds no value for the key; otherwise the value
  that the lookup finds, a sequence flattened to its elements' strings with commas
  between them.
\<close>

definition resolved_as_specified ::
  "datasource_collection \<Rightarrow> pyval \<times> parameter_definition \<Rightarrow> resolved_parameter \<Rightarrow> bool" where
  "resolved_as_specified datasource_collection item p \<longleftrightarrow>
     (case item of (key, parameter_definition) \<Rightarrow>
        ParameterKey p = py_str key \<and>
        (if Default parameter_definition \<noteq> None \<and> \<not> contains datasource_collection key
         then ParameterValue p = py_str (the (Default parameter_definition))
         else (case get_parameter_recursive datasource_collection key of
                 Inl ex \<Rightarrow> False
               | Inr (PList xs) \<Rightarrow> ParameterValue p = join '','' (map py_str xs)
               | Inr (PStr s) \<Rightarrow> ParameterValue p = s)))"

text \<open>
  A sample template that declares the parameters \<^verbatim>\<open>a\<close>, \<^verbatim>\<open>b\<close> and
  \<^verbatim>\<open>c\<close> in this order, of which only \<^verbatim>\<open>a\<close> has a default. CPython 2.7
  stores these three keys in the slots 0, 3 and 2 of the hash table of the dict and
  enumerates them as \<^verbatim>\<open>a\<close>, \<^verbatim>\<open>c\<close>, \<^verbatim>\<open>b\<close>. A sample source holds
  \<^verbatim>\<open>b\<close> in its nearest scope and the list-valued \<^verbatim>\<open>c\<close> in the scope behind it.
\<close>

definition sample_parameters :: "(pyval, parameter_definition) pydict" where
  "sample_parameters =
     \<lparr>declared = [(PStr ''a'', \<lparr>Default = Some (PStr ''x'')\<rparr>),
                  (PStr ''b'', \<lparr>Default = None\<rparr>),
                  (PStr ''c'', \<lparr>Default = None\<rparr>)],
      iteritems = [(PStr ''a'', \<lparr>Default = Some (PStr ''x'')\<rparr>),
                   (PStr ''c'', \<lparr>Default = None\<rparr>),
                   (PStr ''b'', \<lparr>Default = None\<rparr>)]\<rparr>"

definition sample_source :: datasource_collection where
  "sample_source =
     [[(PStr ''b'', PStr ''y'')], [(PStr ''c'', PList [PStr ''1'', PStr ''2''])]]"

text \<open>A sample template whose one parameter has a list as its default.\<close>

definition list_default_parameters :: "(pyval, parameter_definition) pydict" where
  "list_default_parameters =
     \<lparr>declared = [(PStr ''Subnets'', \<lparr>Default = Some (PList [PStr ''1'', PStr ''2''])\<rparr>)],
      iteritems = [(PStr ''Subnets'', \<lparr>Default = Some (PList [PStr ''1'', PStr ''2''])\<rparr>)]\<rparr>"

text \<open>
  A sample template whose parameter \<^verbatim>\<open>KeyName\<close> has a default that the
  source overrides, and whose parameter \<^verbatim>\<open>Subnets\<close> has no default and a list
  in the scope behind.
\<close>

definition override_parameters :: "(pyval, parameter_definition) pydict" where
  "override_parameters =
     \<lparr>declared = [(PStr ''KeyName'', \<lparr>Default = Some (PStr ''dflt'')\<rparr>),
                  (PStr ''Subnets'', \<lparr>Default = None\<rparr>)],
      iteritems = [(PStr ''KeyName'', \<lparr>Default = Some (PStr ''dflt'')\<rparr>),
                   (PStr ''Subnets'', \<lparr>Default = None\<rparr>)]\<rparr>"

definition override_source :: datasource_collection where
  "override_source =
     [[(PStr ''KeyName'', PStr ''k1'')], [(PStr ''Subnets'', PList [PStr ''1'', PStr ''2''])]]"

section \<open>The stack gateway\<close>

text \<open>
  A paginator of the client, as the loops of the source consume it: each element is
  one response, or the exception that fetching that response raises.
\<close>

type_synonym 'a paginator = "(exn + 'a) list"

text \<open>
  A stack as the backend reports it, in a \<^verbatim>\<open>StackSummaries\<close> entry of
  \<^verbatim>\<open>list_stacks\<close> or in the \<^verbatim>\<open>Stacks\<close> list of \<^verbatim>\<open>describe_stacks\<close>.
\<close>

record stack =
  StackName :: string
  StackStatus :: string

definition VALID_STACK_STATUSES :: "string list" where
  "VALID_STACK_STATUSES =
     [''CREATE_IN_PROGRESS'', ''CREATE_FAILED'', ''CREATE_COMPLETE'', ''ROLLBACK_IN_PROGRESS'',
      ''ROLLBACK_FAILED'', ''ROLLBACK_COMPLETE'', ''DELETE_IN_PROGRESS'', ''DELETE_FAILED'',
      ''DELETE_COMPLETE'', ''UPDATE_IN_PROGRESS'', ''UPDATE_COMPLETE_CLEANUP_IN_PROGRESS'',
      ''UPDATE_COMPLETE'', ''UPDATE_ROLLBACK_IN_PROGRESS'', ''UPDATE_ROLLBACK_FAILED'',
      ''UPDATE_ROLLBACK_COMPLETE_CLEANUP_IN_PROGRESS'', ''UPDATE_ROLLBACK_COMPLETE'']"

text \<open>
  \<^verbatim>\<open>stack_exists\<close> (lines 73 to 91). The client is the function \<open>list_stacks\<close>
  from the \<^verbatim>\<open>StackStatusFilter\<close> to the paginator's responses, each the
  \<^verbatim>\<open>StackSummaries\<close> of one page.
\<close>

fun stack_exists_loop :: "stack list paginator \<Rightarrow> string list \<Rightarrow> exn + string list" where
  "stack_exists_loop [] stacks = Inr stacks"
| "stack_exists_loop (Inr response # responses) stacks =
     stack_exists_loop responses (stacks @ map StackName response)"
| "stack_exists_loop (Inl ex # responses) stacks = Inl (except_ClientError ex)"

definition stack_exists :: "(string list \<Rightarrow> stack list paginator) \<Rightarrow> string \<Rightarrow> exn + bool" where
  "stack_exists list_stacks name =
     (let responses =
            list_stacks (filter (\<lambda>status. status \<noteq> ''DELETE_COMPLETE'') VALID_STACK_STATUSES)
      in case stack_exists_loop responses [] of
           Inl ex \<Rightarrow> Inl ex
         | Inr stacks \<Rightarrow> Inr (name \<in> set stacks))"

text \<open>
  The \<^verbatim>\<open>message\<close> of a \<^verbatim>\<open>ClientError\<close> that botocore raises for an error
  response of the backend: botocore's \<^verbatim>\<open>ClientError.__init__\<close> formats its
  \<^verbatim>\<open>MSG_TEMPLATE\<close>,
  \<^verbatim>\<open>An error occurred ({error_code}) when calling the {operation_name} operation{retry_info}: {error_message}\<close>,
  and passes the result to \<^verbatim>\<open>Exception.__init__\<close>; \<open>error_message\<close> is the
  message of the backend, and \<open>retry_info\<close> is empty unless the call was retried.
\<close>

definition botocore_message :: "string \<Rightarrow> string \<Rightarrow> string \<Rightarrow> string \<Rightarrow> string" where
  "botocore_message error_code operation_name retry_info error_message =
     ''An error occurred ('' @ error_code @ '') when calling the '' @ operation_name @
     '' operation'' @ retry_info @ '': '' @ error_message"

text \<open>
  \<^verbatim>\<open>update_stack\<close> (lines 93 to 117). \<open>response\<close> is what
  \<^verbatim>\<open>client.update_stack\<close> does with the request: \<open>None\<close> when the call returns,
  the exception when it raises.
\<close>

definition update_stack :: "exn option \<Rightarrow> exn + bool" where
  "update_stack response =
     (case response of
        None \<Rightarrow> Inr True
      | Some (ClientError message) \<Rightarrow>
          if message = ''No updates are to be performed.''
          then Inr False
          else Inl (CloudformationException message)
      | Some ex \<Rightarrow> Inl ex)"

text \<open>
  A stack event as the backend returns it: a dict in which every key that the tailer
  reads with \<^verbatim>\<open>event.get\<close> may be absent.
\<close>

record stack_event =
  EventId :: string
  ResourceType :: "string option"
  LogicalResourceId :: "string option"
  PhysicalResourceId :: "string option"
  ResourceStatus :: "string option"
  ResourceStatusReason :: "string option"
  Timestamp :: "nat option"

text \<open>\<^verbatim>\<open>describe_stack_events\<close> (lines 137 to 155).\<close>

fun describe_stack_events_loop ::
  "stack_event list paginator \<Rightarrow> stack_event list \<Rightarrow> exn + stack_event list" where
  "describe_stack_events_loop [] events = Inr events"
| "describe_stack_events_loop (Inr response # responses) events =
     describe_stack_events_loop responses (events @ response)"
| "describe_stack_events_loop (Inl ex # responses) events = Inl (except_ClientError ex)"

definition describe_stack_events :: "stack_event list paginator \<Rightarrow> exn + stack_event list" where
  "describe_stack_events responses = describe_stack_events_loop responses []"

section \<open>The event tailer\<close>

text \<open>
  The test of lines 225 to 231 on the raw \<^verbatim>\<open>stack['StackStatus']\<close>: the
  \<^verbatim>\<open>if\<close> branch yields a \<^verbatim>\<open>StackFailStatus\<close> and breaks, the
  \<^verbatim>\<open>elif\<close> branch yields a \<^verbatim>\<open>StackSuccessStatus\<close> and breaks, and
  otherwise the loop sleeps and polls again.
\<close>

datatype classification = Failure | Success | InProgress

definition classify :: "string \<Rightarrow> classification" where
  "classify status =
     (if endswith status ''_FAILED'' \<or>
         status \<in> set [''ROLLBACK_COMPLETE'', ''UPDATE_ROLLBACK_COMPLETE'']
      then Failure
      else if endswith status ''_COMPLETE'' then Success
      else InProgress)"

text \<open>What the generator yields: the dict built from an event, or a terminal marker.\<close>

record event_dict =
  resource_type :: "string option"
  logical_resource_id :: "string option"
  physical_resource_id :: "string option"
  resource_status :: "string option"
  resource_status_reason :: "string option"
  timestamp :: "nat option"

datatype item =
    EventDict event_dict
  | StackFailStatus string
  | StackSuccessStatus string

definition yield_event :: "stack_event \<Rightarrow> item" where
  "yield_event event =
     EventDict \<lparr>resource_type = ResourceType event,
                logical_resource_id = LogicalResourceId event,
                physical_resource_id = PhysicalResourceId event,
                resource_status = ResourceStatus event,
                resource_status_reason = ResourceStatusReason event,
                timestamp = Timestamp event\<rparr>"

text \<open>
  What the backend answers in one cycle of the loop: \<open>describe_stacks\<close> is the
  exception that \<^verbatim>\<open>client.describe_stacks\<close> raises or the \<^verbatim>\<open>Stacks\<close> list
  of its response, \<open>stack_events_responses\<close> is the paginator that
  \<^verbatim>\<open>describe_stack_events\<close> reads.
\<close>

record poll =
  describe_stacks :: "exn + stack list"
  stack_events_responses :: "stack_event list paginator"

text \<open>
  One cycle of \<^verbatim>\<open>while True\<close> (lines 210 to 233), from the cursor
  \<open>previous_stack_events\<close>: the items yielded, the cursor afterwards, and how the
  cycle ends. Both reads are made before anything is yielded.
\<close>

datatype control = Continue | Break | Raise exn

definition poll_cycle :: "int \<Rightarrow> poll \<Rightarrow> item list \<times> int \<times> control" where
  "poll_cycle previous_stack_events poll =
     (case describe_stacks poll of
        Inl ex \<Rightarrow> ([], previous_stack_events, Raise ex)
      | Inr [] \<Rightarrow> ([], previous_stack_events, Raise IndexError)
      | Inr (stack # _) \<Rightarrow>
         (case describe_stack_events (stack_events_responses poll) of
            Inl ex \<Rightarrow> ([], previous_stack_events, Raise ex)
          | Inr stack_events \<Rightarrow>
             (let (yielded, cursor) =
                    (if int (length stack_events) > previous_stack_events
                     then (map yield_event
                             (rev (slice_to stack_events (or_None (- previous_stack_events)))),
                           int (length stack_events))
                     else ([], previous_stack_events))
              in case classify (StackStatus stack) of
                   Failure \<Rightarrow> (yielded @ [StackFailStatus (StackStatus stack)], cursor, Break)
                 | Success \<Rightarrow> (yielded @ [StackSuccessStatus (StackStatus stack)], cursor, Break)
                 | InProgress \<Rightarrow> (yielded, cursor, Continue))))"

text \<open>
  \<^verbatim>\<open>_tail_stack_events\<close> (lines 202 to 233), run against the answers of the
  backend to the successive cycles. The generator ends with \<open>StopIteration\<close> after
  a \<^verbatim>\<open>break\<close>, ends with \<open>Raised\<close> when a cycle raises, and is \<open>Suspended\<close>
  in \<^verbatim>\<open>time.sleep\<close> before its next cycle when the answers given are used up.
\<close>

datatype outcome = StopIteration | Raised exn | Suspended

fun tail_stack_events_gen :: "int \<Rightarrow> poll list \<Rightarrow> item list \<times> outcome" where
  "tail_stack_events_gen previous_stack_events [] = ([], Suspended)"
| "tail_stack_events_gen previous_stack_events (poll # polls) =
     (case poll_cycle previous_stack_events poll of
        (yielded, cursor, Continue) \<Rightarrow>
          (let (later, out) = tail_stack_events_gen cursor polls in (yielded @ later, out))
      | (yielded, cursor, Break) \<Rightarrow> (yielded, StopIteration)
      | (yielded, cursor, Raise ex) \<Rightarrow> (yielded, Raised ex))"

text \<open>
  The values that \<open>previous_stack_events\<close> takes in that run: at the start of every
  cycle, and after the last one.
\<close>

fun cursor_trace :: "int \<Rightarrow> poll list \<Rightarrow> int list" where
  "cursor_trace previous_stack_events [] = [previous_stack_events]"
| "cursor_trace previous_stack_events (poll # polls) =
     previous_stack_events #
     (case poll_cycle previous_stack_events poll of
        (yielded, cursor, Continue) \<Rightarrow> cursor_trace cursor polls
      | (yielded, cursor, _) \<Rightarrow> [cursor])"

text \<open>
  \<^verbatim>\<open>tail_stack_events\<close> (lines 171 to 200). \<open>now\<close> is the paginator that
  \<^verbatim>\<open>describe_stack_events\<close> reads at the time of the call; the result is the
  exception raised by the call, or the generator it returns, given by its run
  against the later answers of the backend.
\<close>

definition tail_stack_events ::
  "stack_event list paginator \<Rightarrow> int option \<Rightarrow> poll list \<Rightarrow> exn + item list \<times> outcome" where
  "tail_stack_events now initial_entry polls =
     (case initial_entry of
        None \<Rightarrow>
          (case describe_stack_events now of
             Inl ex \<Rightarrow> Inl ex
           | Inr events \<Rightarrow> Inr (tail_stack_events_gen (int (length events)) polls))
      | Some i \<Rightarrow>
          if i < 0 then
            (case describe_stack_events now of
               Inl ex \<Rightarrow> Inl ex
             | Inr events \<Rightarrow> Inr (tail_stack_events_gen (int (length events) + i) polls))
          else Inr (tail_stack_events_gen i polls))"

section \<open>The backend that the tailer observes\<close>

text \<open>
  An append-only backend whose events are returned newest first: \<open>history\<close> is the
  list of the events of the stack in the order in which they happened, and a poll
  \<open>sees\<close> the first \<open>n\<close> of them when both of its reads succeed and its event
  pages, put together, are those \<open>n\<close> events from the newest to the oldest.
\<close>

definition sees :: "stack_event list \<Rightarrow> poll \<Rightarrow> nat \<Rightarrow> bool" where
  "sees history poll n \<longleftrightarrow>
     n \<le> length history \<and>
     (case describe_stacks poll of Inr (stack # others) \<Rightarrow> True | _ \<Rightarrow> False) \<and>
     describe_stack_events (stack_events_responses poll) = Inr (rev (take n history))"

text \<open>The terminal marker that a cycle yields for a status, if any.\<close>

definition terminal_marker :: "string \<Rightarrow> item list" where
  "terminal_marker status =
     (case classify status of
        Failure \<Rightarrow> [StackFailStatus status]
      | Success \<Rightarrow> [StackSuccessStatus status]
      | InProgress \<Rightarrow> [])"

text \<open>
  A sample history, whose \<open>n\<close>-th event carries the timestamp \<open>n\<close>, and the
  answers of a backend that reports \<open>status\<close> and returns the first \<open>n\<close> events
  of \<open>history\<close> in one page.
\<close>

definition event_at :: "nat \<Rightarrow> stack_event" where
  "event_at n =
     \<lparr>EventId = replicate (Suc n) CHR ''e'',
      ResourceType = Some ''AWS::S3::Bucket'',
      LogicalResourceId = Some ''Bucket'',
      PhysicalResourceId = None,
      ResourceStatus = Some ''CREATE_IN_PROGRESS'',
      ResourceStatusReason = None,
      Timestamp = Some n\<rparr>"

definition backend_poll :: "stack_event list \<Rightarrow> string \<Rightarrow> nat \<Rightarrow> poll" where
  "backend_poll history status n =
     \<lparr>describe_stacks = Inr [\<lparr>StackName = ''stack'', StackStatus = status\<rparr>],
      stack_events_responses = [Inr (rev (take n history))]\<rparr>"

text \<open>
  A backend that holds the stacks \<open>backend_stacks\<close>, each with its present status,
  and whose \<^verbatim>\<open>list_stacks\<close> honours the \<^verbatim>\<open>StackStatusFilter\<close>: for every
  filter every page arrives, and the pages together hold the stacks whose status is in
  the filter.
\<close>

definition honours_filter :: "(string list \<Rightarrow> stack list paginator) \<Rightarrow> stack list \<Rightarrow> bool" where
  "honours_filter list_stacks backend_stacks \<longleftrightarrow>
     (\<forall>status_filter. \<exists>pages.
        list_stacks status_filter = map Inr pages \<and>
        concat pages = filter (\<lambda>s. StackStatus s \<in> set status_filter) backend_stacks)"

text \<open>A backend of that kind, which returns the stacks that match the filter in one page.\<close>

definition one_page_backend :: "stack list \<Rightarrow> string list \<Rightarrow> stack list paginator" where
  "one_page_backend backend_stacks status_filter =
     [Inr (filter (\<lambda>s. StackStatus s \<in> set status_filter) backend_stacks)]"

section \<open>Status strings\<close>

lemma endswith_iff_append: "endswith s suf \<longleftrightarrow> (\<exists>pre. s = pre @ suf)"
proof
  assume "endswith s suf"
  then have "s = take (length s - length suf) s @ suf"
    unfolding endswith_def by (metis append_take_drop_id)
  then show "\<exists>pre. s = pre @ suf" ..
next
  assume "\<exists>pre. s = pre @ suf"
  then show "endswith s suf"
    unfolding endswith_def by auto
qed

lemma endswith_last:
  assumes "endswith s suf" and "suf \<noteq> []"
  shows "s \<noteq> [] \<and> last s = last suf"
  using assms unfolding endswith_iff_append by auto

lemma failed_not_complete: "endswith s ''_FAILED'' \<Longrightarrow> \<not> endswith s ''_COMPLETE''"
  using endswith_last [of s "''_FAILED''"] endswith_last [of s "''_COMPLETE''"] by auto

lemma in_progress_not_terminal:
  assumes "endswith s ''_IN_PROGRESS''"
  shows "\<not> endswith s ''_FAILED''" and "\<not> endswith s ''_COMPLETE''"
    and "s \<noteq> ''ROLLBACK_COMPLETE''" and "s \<noteq> ''UPDATE_ROLLBACK_COMPLETE''"
proof -
  have l: "last s = CHR ''S''"
    using endswith_last [OF assms] by simp
  show "\<not> endswith s ''_FAILED''"
    using endswith_last [of s "''_FAILED''"] l by auto
  show "\<not> endswith s ''_COMPLETE''"
    using endswith_last [of s "''_COMPLETE''"] l by auto
  show "s \<noteq> ''ROLLBACK_COMPLETE''" using l by auto
  show "s \<noteq> ''UPDATE_ROLLBACK_COMPLETE''" using l by auto
qed

lemma rollback_complete_endswith:
  "endswith ''ROLLBACK_COMPLETE'' ''_COMPLETE''"
  "endswith ''UPDATE_ROLLBACK_COMPLETE'' ''_COMPLETE''"
  by (simp_all add: endswith_def)

lemma classify_Failure:
  "classify s = Failure \<longleftrightarrow>
      endswith s ''_FAILED'' \<or> s = ''ROLLBACK_COMPLETE'' \<or> s = ''UPDATE_ROLLBACK_COMPLETE''"
  unfolding classify_def by (simp del: list.inject)

lemma classify_Success:
  "classify s = Success \<longleftrightarrow>
      endswith s ''_COMPLETE'' \<and> s \<noteq> ''ROLLBACK_COMPLETE'' \<and> s \<noteq> ''UPDATE_ROLLBACK_COMPLETE''"
  unfolding classify_def using failed_not_complete [of s] by (auto simp del: list.inject)

lemma classify_InProgress:
  "classify s = InProgress \<longleftrightarrow> \<not> endswith s ''_FAILED'' \<and> \<not> endswith s ''_COMPLETE''"
  unfolding classify_def using rollback_complete_endswith by (auto simp del: list.inject)

section \<open>One cycle and the whole run of the tailer\<close>

lemma rev_slice_to:
  assumes "0 \<le> c" and "c < int (length xs)"
  shows "rev (slice_to xs (or_None (- c))) = drop (nat c) (rev xs)"
proof (cases "c = 0")
  case True
  then show ?thesis by (simp add: slice_to_def or_None_def)
next
  case False
  with assms have "slice_to xs (or_None (- c)) = take (length xs - nat c) xs"
    by (simp add: slice_to_def or_None_def)
  moreover have "length xs - (length xs - nat c) = nat c"
    using assms by auto
  ultimately show ?thesis by (simp add: rev_take)
qed

lemma drop_take_split:
  assumes "c \<le> n" and "n \<le> m" and "n \<le> length xs"
  shows "drop c (take n xs) @ drop n (take m xs) = drop c (take m xs)"
proof -
  have "take m xs = take n xs @ drop n (take m xs)"
    using assms by (metis append_take_drop_id min.absorb1 take_take)
  then have "drop c (take m xs) = drop c (take n xs @ drop n (take m xs))" by simp
  also have "\<dots> = drop c (take n xs) @ drop n (take m xs)"
    using assms by simp
  finally show ?thesis by simp
qed

lemma poll_cycle_sees:
  assumes "sees history poll n" and "0 \<le> c"
  obtains stack others where "describe_stacks poll = Inr (stack # others)"
    and "poll_cycle c poll =
          (map yield_event (drop (nat c) (take n history)) @ terminal_marker (StackStatus stack),
           max c (int n),
           if classify (StackStatus stack) = InProgress then Continue else Break)"
proof -
  from assms(1) obtain stack others where st: "describe_stacks poll = Inr (stack # others)"
    unfolding sees_def by (auto split: sum.splits list.splits)
  from assms(1) have ev: "describe_stack_events (stack_events_responses poll) = Inr (rev (take n history))"
    and n: "n \<le> length history"
    unfolding sees_def by auto
  have len: "length (rev (take n history)) = n" using n by simp
  have "poll_cycle c poll =
          (map yield_event (drop (nat c) (take n history)) @ terminal_marker (StackStatus stack),
           max c (int n),
           if classify (StackStatus stack) = InProgress then Continue else Break)"
  proof (cases "int n > c")
    case True
    then have "rev (slice_to (rev (take n history)) (or_None (- c))) = drop (nat c) (take n history)"
      using rev_slice_to [of c "rev (take n history)"] assms(2) len by simp
    with True n show ?thesis
      unfolding poll_cycle_def terminal_marker_def
      by (simp add: st ev max_def min_absorb2 split: classification.splits)
  next
    case False
    then have "drop (nat c) (take n history) = []" using assms(2) by simp
    with False n show ?thesis
      unfolding poll_cycle_def terminal_marker_def
      by (simp add: st ev max_def min_absorb2 split: classification.splits)
  qed
  with st show thesis by (rule that)
qed

lemma poll_cycle_cursor: "poll_cycle c poll = (ys, c', ctl) \<Longrightarrow> c \<le> c'"
  unfolding poll_cycle_def
  by (auto split: sum.splits list.splits if_splits classification.splits prod.splits)

lemma cursor_trace_hd: "hd (cursor_trace c polls) = c"
  by (cases polls) simp_all

lemma cursor_trace_nonempty: "cursor_trace c polls \<noteq> []"
  by (cases polls) simp_all

lemma cursor_trace_sorted: "sorted (cursor_trace c polls)"
proof (induction polls arbitrary: c)
  case Nil
  show ?case by simp
next
  case (Cons poll polls)
  obtain ys c' ctl where pc: "poll_cycle c poll = (ys, c', ctl)"
    by (cases "poll_cycle c poll") auto
  have le: "c \<le> c'" using pc by (rule poll_cycle_cursor)
  show ?case
  proof (cases ctl)
    case Continue
    have "sorted (cursor_trace c' polls)" by (rule Cons.IH)
    moreover have "\<forall>x \<in> set (cursor_trace c' polls). c' \<le> x"
      using \<open>sorted (cursor_trace c' polls)\<close> cursor_trace_hd [of c' polls] cursor_trace_nonempty [of c' polls]
      by (cases "cursor_trace c' polls") auto
    ultimately show ?thesis using pc Continue le by auto
  next
    case Break
    then show ?thesis using pc le by simp
  next
    case (Raise ex)
    then show ?thesis using pc le by simp
  qed
qed

lemma cursor_trace_last_ge: "c \<le> last (cursor_trace c polls)"
  using cursor_trace_sorted [of c polls] cursor_trace_hd [of c polls] cursor_trace_nonempty [of c polls]
  by (cases "cursor_trace c polls") (auto simp: last_in_set)


lemma terminal_marker_shape:
  "(terminal_marker s = [] \<longleftrightarrow> classify s = InProgress) \<and>
   (terminal_marker s = [] \<or> terminal_marker s = [StackFailStatus s] \<or>
    terminal_marker s = [StackSuccessStatus s])"
  unfolding terminal_marker_def by (cases "classify s") simp_all

lemma tail_run:
  assumes "0 \<le> c" and "list_all2 (sees history) polls ns"
  shows "\<exists>fin. tail_stack_events_gen c polls =
           (map yield_event (drop (nat c) (take (nat (last (cursor_trace c polls))) history)) @ fin,
            if fin = [] then Suspended else StopIteration) \<and>
          (fin = [] \<or> (\<exists>s. fin = [StackFailStatus s] \<or> fin = [StackSuccessStatus s])) \<and>
          (\<forall>i < length (cursor_trace c polls) - 1. int (ns ! i) \<le> last (cursor_trace c polls)) \<and>
          last (cursor_trace c polls) \<in> insert c (int ` set ns)"
  using assms
proof (induction polls arbitrary: c ns)
  case Nil
  then show ?case by simp
next
  case (Cons poll polls)
  from Cons.prems(2) obtain n ns' where ns: "ns = n # ns'" and sees: "sees history poll n"
    and rest: "list_all2 (sees history) polls ns'"
    by (auto simp: list_all2_Cons1)
  from sees have n: "n \<le> length history" unfolding sees_def by simp
  from sees Cons.prems(1) obtain stack others where
    st: "describe_stacks poll = Inr (stack # others)" and
    pc: "poll_cycle c poll =
          (map yield_event (drop (nat c) (take n history)) @ terminal_marker (StackStatus stack),
           max c (int n),
           if classify (StackStatus stack) = InProgress then Continue else Break)"
    by (rule poll_cycle_sees)
  let ?s = "StackStatus stack"
  let ?c' = "max c (int n)"
  have c': "0 \<le> ?c'" using Cons.prems(1) by simp
  show ?case
  proof (cases "classify ?s = InProgress")
    case False
    then have fin: "terminal_marker ?s \<noteq> []" using terminal_marker_shape [of ?s] by simp
    have ys: "drop (nat c) (take n history) = drop (nat c) (take (nat ?c') history)"
      using Cons.prems(1) by (cases "c \<le> int n") (simp_all add: max_def)
    have run: "tail_stack_events_gen c (poll # polls) =
                 (map yield_event (drop (nat c) (take (nat ?c') history)) @ terminal_marker ?s,
                  StopIteration)"
      using pc False ys by simp
    have tr: "cursor_trace c (poll # polls) = [c, ?c']"
      using pc False by simp
    show ?thesis
      apply (rule exI [of _ "terminal_marker ?s"])
      using run tr fin terminal_marker_shape [of ?s] ns
      by (auto simp: max_def)
  next
    case True
    then have fin: "terminal_marker ?s = []" using terminal_marker_shape [of ?s] by simp
    let ?N = "last (cursor_trace ?c' polls)"
    from Cons.IH [OF c' rest] obtain fin' where
      ih1: "tail_stack_events_gen ?c' polls =
             (map yield_event (drop (nat ?c') (take (nat ?N) history)) @ fin',
              if fin' = [] then Suspended else StopIteration)"
      and ih2: "fin' = [] \<or> (\<exists>s. fin' = [StackFailStatus s] \<or> fin' = [StackSuccessStatus s])"
      and ih3: "\<forall>i < length (cursor_trace ?c' polls) - 1. int (ns' ! i) \<le> ?N"
      and ih4: "?N \<in> insert ?c' (int ` set ns')"
      by blast
    have N: "?c' \<le> ?N" by (rule cursor_trace_last_ge)
    have tr: "cursor_trace c (poll # polls) = c # cursor_trace ?c' polls"
      using pc True by simp
    have last: "last (cursor_trace c (poll # polls)) = ?N"
      using tr cursor_trace_nonempty [of ?c' polls] by simp
    have glue: "drop (nat c) (take n history) @ drop (nat ?c') (take (nat ?N) history) =
                drop (nat c) (take (nat ?N) history)"
    proof (cases "c \<le> int n")
      case True
      then have "?c' = int n" by simp
      moreover have "drop (nat c) (take n history) @ drop n (take (nat ?N) history) =
                     drop (nat c) (take (nat ?N) history)"
        using True N n Cons.prems(1) by (intro drop_take_split) auto
      ultimately show ?thesis by simp
    next
      case False
      then show ?thesis using Cons.prems(1) by (simp add: max_def)
    qed
    have run: "tail_stack_events_gen c (poll # polls) =
                 (map yield_event (drop (nat c) (take (nat ?N) history)) @ fin',
                  if fin' = [] then Suspended else StopIteration)"
      using pc True fin ih1 glue [symmetric] by simp
    have obs: "\<forall>i < length (cursor_trace c (poll # polls)) - 1.
                 int (ns ! i) \<le> last (cursor_trace c (poll # polls))"
    proof (intro allI impI)
      fix i assume i: "i < length (cursor_trace c (poll # polls)) - 1"
      show "int (ns ! i) \<le> last (cursor_trace c (poll # polls))"
      proof (cases i)
        case 0
        then show ?thesis using ns N last by simp
      next
        case (Suc j)
        with i tr have "j < length (cursor_trace ?c' polls) - 1" by simp
        with ih3 have "int (ns' ! j) \<le> ?N" by blast
        then show ?thesis using Suc ns last by simp
      qed
    qed
    have mem: "last (cursor_trace c (poll # polls)) \<in> insert c (int ` set ns)"
      using ih4 last ns by (auto simp: max_def split: if_splits)
    show ?thesis
      apply (rule exI [of _ fin'])
      using run [folded last] ih2 obs mem by blast
  qed
qed

lemma poll_cycle_status:
  assumes "describe_stacks poll = Inr (stack # others)"
    and "describe_stack_events (stack_events_responses poll) = Inr stack_events"
  shows "\<exists>yielded cursor.
           poll_cycle c poll =
             (yielded @ terminal_marker (StackStatus stack), cursor,
              if classify (StackStatus stack) = InProgress then Continue else Break) \<and>
           (\<forall>x \<in> set yielded. \<exists>e. x = EventDict e)"
  using assms unfolding poll_cycle_def terminal_marker_def yield_event_def
  by (cases "classify (StackStatus stack)") (auto simp: Let_def)

lemma poll_cycle_shape:
  assumes "poll_cycle c poll = (ys, c', ctl)"
  shows "\<exists>evs fin. ys = map EventDict evs @ fin \<and>
           (fin = [] \<or> (\<exists>s. fin = [StackFailStatus s] \<or> fin = [StackSuccessStatus s])) \<and>
           (fin \<noteq> [] \<longleftrightarrow> ctl = Break)"
proof -
  have ev: "\<exists>evs. map yield_event xs = map EventDict evs" for xs
    by (induction xs) (auto simp: yield_event_def Cons_eq_map_conv)
  show ?thesis
  proof (cases "describe_stacks poll")
    case (Inl ex)
    with assms show ?thesis by (auto simp: poll_cycle_def)
  next
    case (Inr stacks)
    show ?thesis
    proof (cases stacks)
      case Nil
      with Inr assms show ?thesis by (auto simp: poll_cycle_def)
    next
      case (Cons stack others)
      show ?thesis
      proof (cases "describe_stack_events (stack_events_responses poll)")
        case (Inl ex)
        with Inr Cons assms show ?thesis by (auto simp: poll_cycle_def)
      next
        case (Inr stack_events)
        let ?new = "slice_to stack_events (or_None (- c))"
        obtain evs where evs: "map yield_event (rev ?new) = map EventDict evs"
          using ev by blast
        have m: "map EventDict [] = ([] :: item list)" by simp
        from assms \<open>describe_stacks poll = Inr stacks\<close> Cons Inr evs show ?thesis
          unfolding poll_cycle_def
          by (cases "classify (StackStatus stack)"; cases "int (length stack_events) > c")
             (auto simp del: map_is_Nil_conv list.map intro: exI [of _ evs] exI [of _ "[]"] m [symmetric])
      qed
    qed
  qed
qed

lemma tail_marker_last:
  "\<exists>evs fin. fst (tail_stack_events_gen c polls) = map EventDict evs @ fin \<and>
      (fin = [] \<or> (\<exists>s. fin = [StackFailStatus s] \<or> fin = [StackSuccessStatus s])) \<and>
      (fin \<noteq> [] \<longleftrightarrow> snd (tail_stack_events_gen c polls) = StopIteration)"
proof (induction polls arbitrary: c)
  case Nil
  show ?case by simp
next
  case (Cons poll polls)
  obtain ys c' ctl where pc: "poll_cycle c poll = (ys, c', ctl)"
    by (cases "poll_cycle c poll") auto
  from poll_cycle_shape [OF pc] obtain evs fin where
    ys: "ys = map EventDict evs @ fin"
    and fin: "fin = [] \<or> (\<exists>s. fin = [StackFailStatus s] \<or> fin = [StackSuccessStatus s])"
    and brk: "fin \<noteq> [] \<longleftrightarrow> ctl = Break"
    by blast
  show ?case
  proof (cases ctl)
    case Continue
    with brk have e: "fin = []" by simp
    from Cons.IH [of c'] obtain evs' fin' where
      l: "fst (tail_stack_events_gen c' polls) = map EventDict evs' @ fin'"
      and f: "fin' = [] \<or> (\<exists>s. fin' = [StackFailStatus s] \<or> fin' = [StackSuccessStatus s])"
      and s: "fin' \<noteq> [] \<longleftrightarrow> snd (tail_stack_events_gen c' polls) = StopIteration"
      by blast
    have "fst (tail_stack_events_gen c (poll # polls)) = map EventDict (evs @ evs') @ fin'"
      using pc Continue ys e l by (simp add: case_prod_unfold Let_def)
    moreover have "snd (tail_stack_events_gen c (poll # polls)) = snd (tail_stack_events_gen c' polls)"
      using pc Continue by (simp add: case_prod_unfold Let_def)
    ultimately show ?thesis using f s by metis
  next
    case Break
    with brk have "fin \<noteq> []" by simp
    moreover have "fst (tail_stack_events_gen c (poll # polls)) = map EventDict evs @ fin"
      and "snd (tail_stack_events_gen c (poll # polls)) = StopIteration"
      using pc Break ys by simp_all
    ultimately show ?thesis using fin by metis
  next
    case (Raise ex)
    with brk have "fin = []" by simp
    moreover have "fst (tail_stack_events_gen c (poll # polls)) = map EventDict evs @ fin"
      and "snd (tail_stack_events_gen c (poll # polls)) = Raised ex"
      using pc Raise ys by simp_all
    ultimately show ?thesis by (metis outcome.distinct(1))
  qed
qed

section \<open>The stack gateway\<close>

lemma stack_exists_loop_pages:
  "stack_exists_loop (map Inr pages) stacks = Inr (stacks @ map StackName (concat pages))"
  by (induction pages arbitrary: stacks) simp_all

lemma stack_exists_honoured:
  assumes "honours_filter list_stacks backend_stacks"
  shows "stack_exists list_stacks name =
           Inr (\<exists>s \<in> set backend_stacks.
                  StackName s = name \<and> StackStatus s \<in> set VALID_STACK_STATUSES \<and>
                  StackStatus s \<noteq> ''DELETE_COMPLETE'')"
proof -
  let ?flt = "filter (\<lambda>status. status \<noteq> ''DELETE_COMPLETE'') VALID_STACK_STATUSES"
  from assms obtain pages where
    p: "list_stacks ?flt = map Inr pages"
    and c: "concat pages = filter (\<lambda>s. StackStatus s \<in> set ?flt) backend_stacks"
    unfolding honours_filter_def by blast
  have "stack_exists list_stacks name = Inr (name \<in> set (map StackName (concat pages)))"
    unfolding stack_exists_def Let_def p stack_exists_loop_pages by simp
  also have "name \<in> set (map StackName (concat pages)) \<longleftrightarrow>
      (\<exists>s \<in> set backend_stacks.
                  StackName s = name \<and> StackStatus s \<in> set VALID_STACK_STATUSES \<and>
                  StackStatus s \<noteq> ''DELETE_COMPLETE'')"
    unfolding c by (auto simp del: list.inject)
  finally show ?thesis .
qed

lemma botocore_message_not_bare:
  "botocore_message error_code operation_name retry_info error_message \<noteq>
     ''No updates are to be performed.''"
  unfolding botocore_message_def by simp

lemma one_page_backend_honours: "honours_filter (one_page_backend backend_stacks) backend_stacks"
  unfolding honours_filter_def one_page_backend_def
  by (intro allI exI [of _ "[filter _ backend_stacks]"]) simp

section \<open>Resolving template parameters\<close>

lemma get_parameter_recursive_Inl:
  "get_parameter_recursive ds key = Inl ex \<Longrightarrow>
     ex = ParameterResolutionError key \<and> \<not> contains ds key"
  by (induction ds) (auto simp: contains_def split: option.splits)

lemma get_parameter_recursive_Inr:
  "get_parameter_recursive ds key = Inr v \<Longrightarrow> contains ds key"
  by (induction ds) (auto simp: contains_def split: option.splits)

lemma resolve_loop_Inr:
  "resolve_loop ds items acc = Inr out \<Longrightarrow>
     \<exists>new. out = acc @ new \<and> list_all2 (resolved_as_specified ds) items new"
proof (induction items arbitrary: acc)
  case Nil
  then show ?case by simp
next
  case (Cons item items)
  obtain key pd where item: "item = (key, pd)" by (cases item)
  show ?case
  proof (cases "Default pd \<noteq> None \<and> \<not> contains ds key")
    case True
    let ?p = "\<lparr>ParameterKey = py_str key, ParameterValue = py_str (the (Default pd))\<rparr>"
    from Cons.prems True item have "resolve_loop ds items (acc @ [?p]) = Inr out"
      by simp
    from Cons.IH [OF this] obtain new where
      "out = (acc @ [?p]) @ new" and "list_all2 (resolved_as_specified ds) items new" by blast
    moreover have "resolved_as_specified ds item ?p"
      using True item by (simp add: resolved_as_specified_def)
    ultimately have "out = acc @ (?p # new) \<and>
        list_all2 (resolved_as_specified ds) (item # items) (?p # new)" by simp
    then show ?thesis by blast
  next
    case False
    with Cons.prems item obtain v where v: "get_parameter_recursive ds key = Inr v"
      by (cases "get_parameter_recursive ds key") auto
    let ?p = "\<lparr>ParameterKey = py_str key,
               ParameterValue = py_str (if hasattr_iter v
                 then PStr (join '','' (map py_str (py_iter v))) else v)\<rparr>"
    from Cons.prems False item v have "resolve_loop ds items (acc @ [?p]) = Inr out"
      by (auto simp: Let_def split: if_splits)
    from Cons.IH [OF this] obtain new where
      "out = (acc @ [?p]) @ new" and "list_all2 (resolved_as_specified ds) items new" by blast
    moreover have "resolved_as_specified ds item ?p"
      using False item v by (cases v) (auto simp: resolved_as_specified_def)
    ultimately have "out = acc @ (?p # new) \<and>
        list_all2 (resolved_as_specified ds) (item # items) (?p # new)" by simp
    then show ?thesis by blast
  qed
qed

lemma resolve_loop_missing:
  assumes "(key, pd) \<in> set items" and "Default pd = None" and "\<not> contains ds key"
  shows "\<exists>k d. (k, d) \<in> set items \<and> Default d = None \<and> \<not> contains ds k \<and>
           resolve_loop ds items acc = Inl (ParameterResolutionError k)"
  using assms
proof (induction items arbitrary: acc)
  case Nil
  then show ?case by simp
next
  case (Cons item items)
  obtain k0 d0 where item: "item = (k0, d0)" by (cases item)
  show ?case
  proof (cases "Default d0 \<noteq> None \<and> \<not> contains ds k0")
    case True
    with Cons.prems item have "(key, pd) \<in> set items" by auto
    from Cons.IH [OF this Cons.prems(2,3), of "acc @ [\<lparr>ParameterKey = py_str k0,
               ParameterValue = py_str (the (Default d0))\<rparr>]"] True item show ?thesis
      by (auto simp: Let_def)
  next
    case False
    show ?thesis
    proof (cases "get_parameter_recursive ds k0")
      case (Inl ex)
      from get_parameter_recursive_Inl [OF Inl] False
      have "ex = ParameterResolutionError k0" "\<not> contains ds k0" "Default d0 = None" by auto
      with Inl False item show ?thesis by auto
    next
      case (Inr v)
      then have "contains ds k0" by (rule get_parameter_recursive_Inr)
      with Cons.prems item have "(key, pd) \<in> set items" by auto
      from Cons.IH [OF this Cons.prems(2,3), of "acc @ [\<lparr>ParameterKey = py_str k0,
               ParameterValue = py_str (if hasattr_iter v
                 then PStr (join '','' (map py_str (py_iter v))) else v)\<rparr>]"]
        False item Inr show ?thesis
        by (auto simp: Let_def)
    qed
  qed
qed

lemma get_parameter_recursive_contains:
  "contains ds key \<Longrightarrow> \<exists>v. get_parameter_recursive ds key = Inr v"
  using get_parameter_recursive_Inl [of ds key]
  by (cases "get_parameter_recursive ds key") auto

lemma resolve_loop_returns:
  assumes "\<forall>item \<in> set items. Default (snd item) \<noteq> None \<or> contains ds (fst item)"
  shows "\<exists>out. resolve_loop ds items acc = Inr out"
  using assms
proof (induction items arbitrary: acc)
  case Nil
  show ?case by simp
next
  case (Cons item items)
  obtain key pd where item: "item = (key, pd)" by (cases item)
  from Cons.prems have rest: "\<forall>item \<in> set items. Default (snd item) \<noteq> None \<or> contains ds (fst item)"
    by simp
  show ?case
  proof (cases "Default pd \<noteq> None \<and> \<not> contains ds key")
    case True
    with Cons.IH [OF rest] item show ?thesis by (simp add: Let_def)
  next
    case False
    with Cons.prems item have "contains ds key" by auto
    then obtain v where "get_parameter_recursive ds key = Inr v"
      using get_parameter_recursive_contains by blast
    with False Cons.IH [OF rest] item show ?thesis by (simp add: Let_def)
  qed
qed

lemma length_repr_char: "1 \<le> length (repr_char q c)"
  unfolding repr_char_def by simp

lemma length_concat_repr_char: "length s \<le> length (concat (map (repr_char q) s))"
proof (induction s)
  case Nil
  show ?case by simp
next
  case (Cons c s)
  then show ?case using length_repr_char [of q c] by simp
qed

lemma length_py_str_le_repr: "length (py_str v) \<le> length (py_repr v)"
proof (cases v)
  case (PStr s)
  then show ?thesis
    using length_concat_repr_char [of s "CHR 0x22"] length_concat_repr_char [of s "CHR 0x27"]
    by (auto simp: repr_str_def Let_def)
next
  case (PList xs)
  then show ?thesis by simp
qed

lemma length_join_str_le_repr:
  "length (join '','' (map py_str xs)) \<le> length (join '', '' (map py_repr xs))"
proof (induction xs rule: induct_list012)
  case 1
  show ?case by simp
next
  case (2 x)
  show ?case using length_py_str_le_repr [of x] by simp
next
  case (3 x y zs)
  then show ?case using length_py_str_le_repr [of x] by simp
qed

lemma str_list_not_joined: "py_str (PList xs) \<noteq> join '','' (map py_str xs)"
proof
  assume "py_str (PList xs) = join '','' (map py_str xs)"
  then have "length (py_str (PList xs)) = length (join '','' (map py_str xs))" by simp
  then show False using length_join_str_le_repr [of xs] by simp
qed

lemma resolve_template_parameters_all2:
  assumes "resolve_template_parameters template ds = Inr parameters"
  shows "list_all2 (resolved_as_specified ds) (parameter_items template) parameters"
  using resolve_loop_Inr [of ds "parameter_items template" "[]" parameters] assms
  unfolding resolve_template_parameters_def by auto

lemma resolved_at:
  assumes "resolve_template_parameters template ds = Inr parameters"
    and "i < length (parameter_items template)"
    and "parameter_items template ! i = (key, pd)"
  shows "ParameterKey (parameters ! i) = py_str key"
    and "Default pd = Some dflt \<Longrightarrow> \<not> contains ds key \<Longrightarrow>
           ParameterValue (parameters ! i) = py_str dflt"
    and "Default pd = None \<or> contains ds key \<Longrightarrow>
           \<exists>v. get_parameter_recursive ds key = Inr v \<and>
               ParameterValue (parameters ! i) =
                 py_str (case v of PList xs \<Rightarrow> PStr (join '','' (map py_str xs)) | PStr s \<Rightarrow> PStr s)"
proof -
  have r: "resolved_as_specified ds (key, pd) (parameters ! i)"
    using list_all2_nthD [OF resolve_template_parameters_all2 [OF assms(1)] assms(2)] assms(3)
    by simp
  show "ParameterKey (parameters ! i) = py_str key"
    using r by (simp add: resolved_as_specified_def)
  show "ParameterValue (parameters ! i) = py_str dflt"
    if "Default pd = Some dflt" "\<not> contains ds key"
    using r that by (simp add: resolved_as_specified_def)
  show "\<exists>v. get_parameter_recursive ds key = Inr v \<and>
               ParameterValue (parameters ! i) =
                 py_str (case v of PList xs \<Rightarrow> PStr (join '','' (map py_str xs)) | PStr s \<Rightarrow> PStr s)"
    if "Default pd = None \<or> contains ds key"
    using r that
    by (auto simp: resolved_as_specified_def split: sum.splits pyval.splits)
qed

lemma resolve_returns_iff:
  "(\<exists>parameters. resolve_template_parameters template ds = Inr parameters) \<longleftrightarrow>
   (\<forall>item \<in> set (parameter_items template). Default (snd item) \<noteq> None \<or> contains ds (fst item))"
proof
  assume "\<exists>parameters. resolve_template_parameters template ds = Inr parameters"
  then obtain parameters where r: "resolve_template_parameters template ds = Inr parameters" ..
  show "\<forall>item \<in> set (parameter_items template). Default (snd item) \<noteq> None \<or> contains ds (fst item)"
  proof (rule ccontr)
    assume "\<not> ?thesis"
    then obtain key pd where "(key, pd) \<in> set (parameter_items template)"
      and "Default pd = None" and "\<not> contains ds key" by auto
    from resolve_loop_missing [OF this, of "[]"] r show False
      unfolding resolve_template_parameters_def by auto
  qed
next
  assume "\<forall>item \<in> set (parameter_items template). Default (snd item) \<noteq> None \<or> contains ds (fst item)"
  then show "\<exists>parameters. resolve_template_parameters template ds = Inr parameters"
    unfolding resolve_template_parameters_def by (rule resolve_loop_returns)
qed

lemma wf_dict_length:
  assumes "wf_dict d"
  shows "length (iteritems d) = length (declared d)"
proof -
  from assms have "distinct (iteritems d)" "distinct (declared d)"
    unfolding wf_dict_def by (simp_all add: distinct_map)
  moreover from assms have "set (iteritems d) = set (declared d)"
    unfolding wf_dict_def by simp
  ultimately show ?thesis by (metis distinct_card)
qed

lemma sample_run:
  "resolve_template_parameters \<lparr>Parameters = Some sample_parameters\<rparr> sample_source =
     Inr [\<lparr>ParameterKey = ''a'', ParameterValue = ''x''\<rparr>,
          \<lparr>ParameterKey = ''c'', ParameterValue = ''1,2''\<rparr>,
          \<lparr>ParameterKey = ''b'', ParameterValue = ''y''\<rparr>]"
  by (simp add: resolve_template_parameters_def parameter_items_def sample_parameters_def
      sample_source_def contains_def)

lemma override_run:
  "resolve_template_parameters \<lparr>Parameters = Some override_parameters\<rparr> override_source =
     Inr [\<lparr>ParameterKey = ''KeyName'', ParameterValue = ''k1''\<rparr>,
          \<lparr>ParameterKey = ''Subnets'', ParameterValue = ''1,2''\<rparr>]"
  by (simp add: resolve_template_parameters_def parameter_items_def override_parameters_def
      override_source_def contains_def)

lemma list_default_run:
  "resolve_template_parameters \<lparr>Parameters = Some list_default_parameters\<rparr> [] =
     Inr [\<lparr>ParameterKey = ''Subnets'',
           ParameterValue = [CHR ''['', CHR 0x27, CHR ''1'', CHR 0x27, CHR '','', CHR '' '',
                             CHR 0x27, CHR ''2'', CHR 0x27, CHR '']'']\<rparr>]"
  by (simp add: resolve_template_parameters_def parameter_items_def list_default_parameters_def
      contains_def repr_str_def repr_char_def Let_def)

section \<open>The claims about the event tailer\<close>

text \<open>
  What the tailer does for a starting cursor that is not negative. In every run of
  \<^verbatim>\<open>_tail_stack_events\<close>, whatever the cursor and the backend, the values of the
  cursor never decrease, and the items yielded are event dicts followed by at most one
  terminal marker, which is the last item and is there exactly when the generator has
  stopped after a \<^verbatim>\<open>break\<close>. Let the backend be append-only and return its
  events newest first: every poll sees a prefix of one \<open>history\<close>, the \<open>i\<close>-th poll
  its first \<open>ns ! i\<close> events. Then the run from a cursor \<open>c\<close> that is not negative
  yields the events of the history from index \<open>c\<close> up to the last value \<open>N\<close> of the
  cursor, each once and from the oldest to the newest, before the marker. \<open>N\<close> is
  the starting cursor or a count that a poll has seen, and no poll of a cycle that ran
  has seen more than \<open>N\<close> events (the trace has one entry per cycle that ran, and
  one more): nothing seen at or beyond the cursor is left out.
\<close>

theorem tail_yields_each_event_once:
  "sorted (cursor_trace c polls) \<and>
   (\<exists>evs fin. fst (tail_stack_events_gen c polls) = map EventDict evs @ fin \<and>
      (fin = [] \<or> (\<exists>s. fin = [StackFailStatus s] \<or> fin = [StackSuccessStatus s])) \<and>
      (fin \<noteq> [] \<longleftrightarrow> snd (tail_stack_events_gen c polls) = StopIteration)) \<and>
   (0 \<le> c \<and> list_all2 (sees history) polls ns \<longrightarrow>
      (\<exists>fin. tail_stack_events_gen c polls =
           (map yield_event (drop (nat c) (take (nat (last (cursor_trace c polls))) history)) @ fin,
            if fin = [] then Suspended else StopIteration) \<and>
          (fin = [] \<or> (\<exists>s. fin = [StackFailStatus s] \<or> fin = [StackSuccessStatus s])) \<and>
          (\<forall>i < length (cursor_trace c polls) - 1. int (ns ! i) \<le> last (cursor_trace c polls)) \<and>
          last (cursor_trace c polls) \<in> insert c (int ` set ns)))"
proof (intro conjI impI)
  show "sorted (cursor_trace c polls)" by (rule cursor_trace_sorted)
next
  show "\<exists>evs fin. fst (tail_stack_events_gen c polls) = map EventDict evs @ fin \<and>
      (fin = [] \<or> (\<exists>s. fin = [StackFailStatus s] \<or> fin = [StackSuccessStatus s])) \<and>
      (fin \<noteq> [] \<longleftrightarrow> snd (tail_stack_events_gen c polls) = StopIteration)"
    by (rule tail_marker_last)
next
  assume "0 \<le> c \<and> list_all2 (sees history) polls ns"
  then have "0 \<le> c" and "list_all2 (sees history) polls ns" by simp_all
  then show "\<exists>fin. tail_stack_events_gen c polls =
           (map yield_event (drop (nat c) (take (nat (last (cursor_trace c polls))) history)) @ fin,
            if fin = [] then Suspended else StopIteration) \<and>
          (fin = [] \<or> (\<exists>s. fin = [StackFailStatus s] \<or> fin = [StackSuccessStatus s])) \<and>
          (\<forall>i < length (cursor_trace c polls) - 1. int (ns ! i) \<le> last (cursor_trace c polls)) \<and>
          last (cursor_trace c polls) \<in> insert c (int ` set ns)"
    by (rule tail_run)
qed

text \<open>
  The theorem at the cursor 1, on a history of three events of which the first poll
  sees two while the stack is in progress and the second sees three with the stack
  complete: the events 1 and 2 are yielded, and the cursor goes from 1 to 2 to 3.
\<close>

theorem tail_yields_each_event_once_witness:
  "(0::int) \<le> 1 \<and>
   list_all2 (sees (map event_at [0, 1, 2]))
     [backend_poll (map event_at [0, 1, 2]) ''CREATE_IN_PROGRESS'' 2,
      backend_poll (map event_at [0, 1, 2]) ''CREATE_COMPLETE'' 3] [2, 3] \<and>
   cursor_trace 1
     [backend_poll (map event_at [0, 1, 2]) ''CREATE_IN_PROGRESS'' 2,
      backend_poll (map event_at [0, 1, 2]) ''CREATE_COMPLETE'' 3] = [1, 2, 3] \<and>
   (\<exists>fin. tail_stack_events_gen 1
       [backend_poll (map event_at [0, 1, 2]) ''CREATE_IN_PROGRESS'' 2,
        backend_poll (map event_at [0, 1, 2]) ''CREATE_COMPLETE'' 3] =
       ([yield_event (event_at 1), yield_event (event_at 2)] @ fin,
        if fin = [] then Suspended else StopIteration) \<and>
      (fin = [] \<or> (\<exists>s. fin = [StackFailStatus s] \<or> fin = [StackSuccessStatus s])))"
proof -
  let ?h = "map event_at [0, 1, 2]"
  let ?polls = "[backend_poll ?h ''CREATE_IN_PROGRESS'' 2, backend_poll ?h ''CREATE_COMPLETE'' 3]"
  have c: "(0::int) \<le> 1" by simp
  have s: "list_all2 (sees ?h) ?polls [2, 3]"
    by (simp add: sees_def backend_poll_def describe_stack_events_def)
  have tr: "cursor_trace 1 ?polls = [1, 2, 3]"
    by (simp add: poll_cycle_def backend_poll_def describe_stack_events_def classify_def
        endswith_def slice_to_def or_None_def)
  have sl: "drop (nat 1) (take (nat (last [1, 2, 3 :: int])) ?h) = [event_at 1, event_at 2]"
    by simp
  from tail_yields_each_event_once [THEN conjunct2, THEN conjunct2, THEN mp, OF conjI [OF c s]] obtain fin where
    "tail_stack_events_gen 1 ?polls =
       (map yield_event (drop (nat 1) (take (nat (last (cursor_trace 1 ?polls))) ?h)) @ fin,
        if fin = [] then Suspended else StopIteration)"
    and "fin = [] \<or> (\<exists>s. fin = [StackFailStatus s] \<or> fin = [StackSuccessStatus s])"
    by blast
  then have "tail_stack_events_gen 1 ?polls =
       ([yield_event (event_at 1), yield_event (event_at 2)] @ fin,
        if fin = [] then Suspended else StopIteration) \<and>
      (fin = [] \<or> (\<exists>s. fin = [StackFailStatus s] \<or> fin = [StackSuccessStatus s]))"
    unfolding tr sl by simp
  then have "\<exists>fin. tail_stack_events_gen 1 ?polls =
       ([yield_event (event_at 1), yield_event (event_at 2)] @ fin,
        if fin = [] then Suspended else StopIteration) \<and>
      (fin = [] \<or> (\<exists>s. fin = [StackFailStatus s] \<or> fin = [StackSuccessStatus s]))" ..
  with c s tr show ?thesis by (intro conjI)
qed

text \<open>
  C1 at its failing input. On a stack that holds three events, at the call and at
  the one poll, which reads \<^verbatim>\<open>CREATE_COMPLETE\<close>,
  \<^verbatim>\<open>tail_stack_events(name, -4)\<close> starts the generator at the cursor \<open>-1\<close>.
  All three events have an index at or beyond that cursor, and C1 has each of them
  yielded once; the slice \<^verbatim>\<open>stack_events[:1]\<close> of line 215 keeps the newest
  event only, and the events 0 and 1 are never yielded. With \<open>-5\<close> the two newest
  events are yielded, and with \<open>-3\<close>, where the cursor is 0, all three.
\<close>

theorem tail_negative_cursor_drops_events:
  "describe_stack_events [Inr [event_at 2, event_at 1, event_at 0]] =
     Inr [event_at 2, event_at 1, event_at 0] \<and>
   tail_stack_events [Inr [event_at 2, event_at 1, event_at 0]] (Some (- 4))
       [backend_poll [event_at 0, event_at 1, event_at 2] ''CREATE_COMPLETE'' 3] =
     Inr ([yield_event (event_at 2), StackSuccessStatus ''CREATE_COMPLETE''], StopIteration) \<and>
   tail_stack_events [Inr [event_at 2, event_at 1, event_at 0]] (Some (- 5))
       [backend_poll [event_at 0, event_at 1, event_at 2] ''CREATE_COMPLETE'' 3] =
     Inr ([yield_event (event_at 1), yield_event (event_at 2),
           StackSuccessStatus ''CREATE_COMPLETE''], StopIteration) \<and>
   tail_stack_events [Inr [event_at 2, event_at 1, event_at 0]] (Some (- 3))
       [backend_poll [event_at 0, event_at 1, event_at 2] ''CREATE_COMPLETE'' 3] =
     Inr ([yield_event (event_at 0), yield_event (event_at 1), yield_event (event_at 2),
           StackSuccessStatus ''CREATE_COMPLETE''], StopIteration) \<and>
   tail_stack_events_gen (- 1)
       [backend_poll [event_at 0, event_at 1, event_at 2] ''CREATE_COMPLETE'' 3] =
     ([yield_event (event_at 2), StackSuccessStatus ''CREATE_COMPLETE''], StopIteration) \<and>
   yield_event (event_at 0) \<noteq> yield_event (event_at 2) \<and>
   yield_event (event_at 1) \<noteq> yield_event (event_at 2)"
  by (simp add: tail_stack_events_def poll_cycle_def backend_poll_def describe_stack_events_def
        classify_def endswith_def slice_to_def or_None_def yield_event_def event_at_def)

text \<open>
  C2. The terminal test of the tailer classifies a raw status string \<open>s\<close> as a
  failure exactly when \<open>s\<close> ends with \<^verbatim>\<open>_FAILED\<close> or is
  \<^verbatim>\<open>ROLLBACK_COMPLETE\<close> or \<^verbatim>\<open>UPDATE_ROLLBACK_COMPLETE\<close>, as a success
  exactly when \<open>s\<close> ends with \<^verbatim>\<open>_COMPLETE\<close> and is neither of those two,
  and as in progress otherwise, which every string ending with
  \<^verbatim>\<open>_IN_PROGRESS\<close> is. In a cycle whose two reads succeed, a failure yields a
  \<^verbatim>\<open>StackFailStatus\<close> and a success a \<^verbatim>\<open>StackSuccessStatus\<close>, each
  carrying \<open>s\<close> after the event dicts of the cycle, and the loop breaks; a status in
  progress, recognised or not, yields no marker and raises nothing, and the run goes on
  with the next cycle.
\<close>

theorem status_classification:
  "(classify s = Failure \<longleftrightarrow>
      endswith s ''_FAILED'' \<or> s = ''ROLLBACK_COMPLETE'' \<or> s = ''UPDATE_ROLLBACK_COMPLETE'') \<and>
   (classify s = Success \<longleftrightarrow>
      endswith s ''_COMPLETE'' \<and> s \<noteq> ''ROLLBACK_COMPLETE'' \<and> s \<noteq> ''UPDATE_ROLLBACK_COMPLETE'') \<and>
   (classify s = InProgress \<longleftrightarrow> \<not> endswith s ''_FAILED'' \<and> \<not> endswith s ''_COMPLETE'') \<and>
   (endswith s ''_IN_PROGRESS'' \<longrightarrow> classify s = InProgress) \<and>
   (describe_stacks poll = Inr (stack # others) \<and> StackStatus stack = s \<and>
    describe_stack_events (stack_events_responses poll) = Inr stack_events \<longrightarrow>
      (\<exists>yielded cursor.
         (\<forall>x \<in> set yielded. \<exists>e. x = EventDict e) \<and>
         (classify s = Failure \<longrightarrow>
            poll_cycle c poll = (yielded @ [StackFailStatus s], cursor, Break)) \<and>
         (classify s = Success \<longrightarrow>
            poll_cycle c poll = (yielded @ [StackSuccessStatus s], cursor, Break)) \<and>
         (classify s = InProgress \<longrightarrow>
            poll_cycle c poll = (yielded, cursor, Continue) \<and>
            tail_stack_events_gen c (poll # polls) =
              (yielded @ fst (tail_stack_events_gen cursor polls),
               snd (tail_stack_events_gen cursor polls)))))"
proof (intro conjI impI)
  show "classify s = Failure \<longleftrightarrow>
      endswith s ''_FAILED'' \<or> s = ''ROLLBACK_COMPLETE'' \<or> s = ''UPDATE_ROLLBACK_COMPLETE''"
    by (rule classify_Failure)
  show "classify s = Success \<longleftrightarrow>
      endswith s ''_COMPLETE'' \<and> s \<noteq> ''ROLLBACK_COMPLETE'' \<and> s \<noteq> ''UPDATE_ROLLBACK_COMPLETE''"
    by (rule classify_Success)
  show "classify s = InProgress \<longleftrightarrow> \<not> endswith s ''_FAILED'' \<and> \<not> endswith s ''_COMPLETE''"
    by (rule classify_InProgress)
  show "classify s = InProgress" if "endswith s ''_IN_PROGRESS''"
    using in_progress_not_terminal [OF that] classify_InProgress by blast
next
  assume a: "describe_stacks poll = Inr (stack # others) \<and> StackStatus stack = s \<and>
    describe_stack_events (stack_events_responses poll) = Inr stack_events"
  then obtain yielded cursor where
    pc: "poll_cycle c poll =
           (yielded @ terminal_marker s, cursor, if classify s = InProgress then Continue else Break)"
    and ev: "\<forall>x \<in> set yielded. \<exists>e. x = EventDict e"
    using poll_cycle_status [of poll stack others stack_events c] by auto
  show "\<exists>yielded cursor.
         (\<forall>x \<in> set yielded. \<exists>e. x = EventDict e) \<and>
         (classify s = Failure \<longrightarrow>
            poll_cycle c poll = (yielded @ [StackFailStatus s], cursor, Break)) \<and>
         (classify s = Success \<longrightarrow>
            poll_cycle c poll = (yielded @ [StackSuccessStatus s], cursor, Break)) \<and>
         (classify s = InProgress \<longrightarrow>
            poll_cycle c poll = (yielded, cursor, Continue) \<and>
            tail_stack_events_gen c (poll # polls) =
              (yielded @ fst (tail_stack_events_gen cursor polls),
               snd (tail_stack_events_gen cursor polls)))"
    apply (rule exI [of _ yielded], rule exI [of _ cursor])
    using pc ev by (auto simp: terminal_marker_def split: prod.splits)
qed

text \<open>
  The theorem at the status \<^verbatim>\<open>UPDATE_COMPLETE_CLEANUP_IN_PROGRESS\<close>, which holds
  \<^verbatim>\<open>_COMPLETE\<close> in its middle: it is in progress, and the cycle of a poll that
  reads it continues.
\<close>

theorem status_classification_witness:
  "endswith ''UPDATE_COMPLETE_CLEANUP_IN_PROGRESS'' ''_IN_PROGRESS'' \<and>
   classify ''UPDATE_COMPLETE_CLEANUP_IN_PROGRESS'' = InProgress \<and>
   describe_stacks (backend_poll [] ''UPDATE_COMPLETE_CLEANUP_IN_PROGRESS'' 0) =
     Inr [\<lparr>StackName = ''stack'', StackStatus = ''UPDATE_COMPLETE_CLEANUP_IN_PROGRESS''\<rparr>] \<and>
   describe_stack_events
     (stack_events_responses (backend_poll [] ''UPDATE_COMPLETE_CLEANUP_IN_PROGRESS'' 0)) = Inr [] \<and>
   (\<exists>yielded cursor.
      poll_cycle 0 (backend_poll [] ''UPDATE_COMPLETE_CLEANUP_IN_PROGRESS'' 0) =
        (yielded, cursor, Continue))"
proof -
  let ?s = "''UPDATE_COMPLETE_CLEANUP_IN_PROGRESS''"
  let ?stack = "\<lparr>StackName = ''stack'', StackStatus = ?s\<rparr>"
  let ?poll = "backend_poll [] ?s 0"
  note t = status_classification [of ?s ?poll ?stack "[]" "[]" 0 "[]"]
  have e: "endswith ?s ''_IN_PROGRESS''"
    by (simp add: endswith_def)
  have c: "classify ?s = InProgress"
    using t [THEN conjunct2, THEN conjunct2, THEN conjunct2, THEN conjunct1] e by (rule mp)
  have d: "describe_stacks ?poll = Inr [?stack]"
    by (simp add: backend_poll_def)
  have v: "describe_stack_events (stack_events_responses ?poll) = Inr []"
    by (simp add: backend_poll_def describe_stack_events_def)
  have st: "StackStatus ?stack = ?s" by simp
  from t [THEN conjunct2, THEN conjunct2, THEN conjunct2, THEN conjunct2, THEN mp,
      OF conjI [OF d conjI [OF st v]]]
  obtain yielded cursor where
    "classify ?s = InProgress \<longrightarrow> poll_cycle 0 ?poll = (yielded, cursor, Continue) \<and>
       tail_stack_events_gen 0 [?poll] =
         (yielded @ fst (tail_stack_events_gen cursor []), snd (tail_stack_events_gen cursor []))"
    by blast
  with c have "poll_cycle 0 ?poll = (yielded, cursor, Continue)" by blast
  then have "\<exists>yielded cursor. poll_cycle 0 ?poll = (yielded, cursor, Continue)" by blast
  with e c d v show ?thesis by (intro conjI)
qed

text \<open>
  C3. \<^verbatim>\<open>tail_stack_events(name, initial_entry)\<close> returns the generator
  \<^verbatim>\<open>_tail_stack_events\<close> started at this cursor: for \<^verbatim>\<open>None\<close> the number of
  events that \<^verbatim>\<open>describe_stack_events\<close> returns at the time of the call, for a
  negative integer \<open>-k\<close> that number less \<open>k\<close>, and for an integer that is not
  negative the integer itself, in which case no event is read.
\<close>

theorem tail_stack_events_starting_cursor:
  "(describe_stack_events now = Inr events \<longrightarrow>
      tail_stack_events now None polls =
        Inr (tail_stack_events_gen (int (length events)) polls)) \<and>
   (describe_stack_events now = Inr events \<and> 0 < k \<longrightarrow>
      tail_stack_events now (Some (- int k)) polls =
        Inr (tail_stack_events_gen (int (length events) - int k) polls)) \<and>
   (0 \<le> i \<longrightarrow>
      tail_stack_events now (Some i) polls = Inr (tail_stack_events_gen i polls))"
  unfolding tail_stack_events_def by simp

text \<open>
  The theorem on a stack that holds five events, returned in two pages: the cursors are
  5 for \<^verbatim>\<open>None\<close>, 3 for \<open>-2\<close> and 7 for 7.
\<close>

theorem tail_stack_events_starting_cursor_witness:
  "describe_stack_events [Inr [event_at 4, event_at 3], Inr [event_at 2, event_at 1, event_at 0]] =
     Inr [event_at 4, event_at 3, event_at 2, event_at 1, event_at 0] \<and>
   (0::nat) < 2 \<and> (0::int) \<le> 7 \<and>
   tail_stack_events [Inr [event_at 4, event_at 3], Inr [event_at 2, event_at 1, event_at 0]] None [] =
     Inr (tail_stack_events_gen 5 []) \<and>
   tail_stack_events [Inr [event_at 4, event_at 3], Inr [event_at 2, event_at 1, event_at 0]]
       (Some (- 2)) [] =
     Inr (tail_stack_events_gen 3 []) \<and>
   tail_stack_events [Inr [event_at 4, event_at 3], Inr [event_at 2, event_at 1, event_at 0]]
       (Some 7) [] =
     Inr (tail_stack_events_gen 7 [])"
proof -
  let ?now = "[Inr [event_at 4, event_at 3], Inr [event_at 2, event_at 1, event_at 0]]"
  let ?events = "[event_at 4, event_at 3, event_at 2, event_at 1, event_at 0]"
  note t = tail_stack_events_starting_cursor [of ?now ?events "[]" 2 7]
  have d: "describe_stack_events ?now = Inr ?events"
    by (simp add: describe_stack_events_def)
  have k: "(0::nat) < 2" by simp
  have i: "(0::int) \<le> 7" by simp
  have 1: "tail_stack_events ?now None [] = Inr (tail_stack_events_gen 5 [])"
    using t [THEN conjunct1, THEN mp, OF d] by simp
  have 2: "tail_stack_events ?now (Some (- 2)) [] = Inr (tail_stack_events_gen 3 [])"
    using t [THEN conjunct2, THEN conjunct1, THEN mp, OF conjI [OF d k]] by simp
  have 3: "tail_stack_events ?now (Some 7) [] = Inr (tail_stack_events_gen 7 [])"
    using t [THEN conjunct2, THEN conjunct2, THEN mp, OF i] by simp
  from d k i 1 2 3 show ?thesis by (intro conjI)
qed

section \<open>The claims about the stack gateway\<close>

text \<open>
  C7 at its failing input. When the backend rejects an update with the message
  \<^verbatim>\<open>No updates are to be performed.\<close>, the \<^verbatim>\<open>ClientError\<close> that botocore
  raises carries the formatted message, which begins with
  \<^verbatim>\<open>An error occurred\<close>. The comparison of line 111 fails on it, and
  \<^verbatim>\<open>update_stack\<close> raises a \<^verbatim>\<open>CloudformationException\<close> where C7 and the
  docstring of line 104 have it return \<^verbatim>\<open>False\<close>. The same holds for every
  error code, operation, retry note and backend message: no \<^verbatim>\<open>ClientError\<close> of
  botocore makes \<^verbatim>\<open>update_stack\<close> return \<^verbatim>\<open>False\<close>.
\<close>

theorem update_stack_no_updates_raises:
  "botocore_message ''ValidationError'' ''UpdateStack'' [] ''No updates are to be performed.'' =
     ''An error occurred (ValidationError) when calling the UpdateStack operation: No updates are to be performed.'' \<and>
   update_stack (Some (ClientError
       (botocore_message ''ValidationError'' ''UpdateStack'' [] ''No updates are to be performed.''))) =
     Inl (CloudformationException
       ''An error occurred (ValidationError) when calling the UpdateStack operation: No updates are to be performed.'') \<and>
   update_stack (Some (ClientError
       (botocore_message error_code operation_name retry_info error_message))) =
     Inl (CloudformationException
       (botocore_message error_code operation_name retry_info error_message))"
proof (intro conjI)
  show m: "botocore_message ''ValidationError'' ''UpdateStack'' [] ''No updates are to be performed.'' =
     ''An error occurred (ValidationError) when calling the UpdateStack operation: No updates are to be performed.''"
    by (simp add: botocore_message_def)
  have g: "update_stack (Some (ClientError (botocore_message c operation r e))) =
     Inl (CloudformationException (botocore_message c operation r e))" for c operation r e
    unfolding update_stack_def using botocore_message_not_bare [of c operation r e]
    by (simp del: list.inject)
  show "update_stack (Some (ClientError
       (botocore_message ''ValidationError'' ''UpdateStack'' [] ''No updates are to be performed.''))) =
     Inl (CloudformationException
       ''An error occurred (ValidationError) when calling the UpdateStack operation: No updates are to be performed.'')"
    using g [of "''ValidationError''" "''UpdateStack''" "[]" "''No updates are to be performed.''"]
    unfolding m .
  show "update_stack (Some (ClientError
       (botocore_message error_code operation_name retry_info error_message))) =
     Inl (CloudformationException
       (botocore_message error_code operation_name retry_info error_message))"
    by (rule g)
qed

text \<open>
  C8 at its failing input. A \<^verbatim>\<open>ClientError\<close> raised by
  \<^verbatim>\<open>client.describe_stacks\<close> in a cycle ends the run, with nothing yielded in that
  cycle, and reaches the consumer as the \<^verbatim>\<open>ClientError\<close> itself: line 210 calls
  the client outside any \<^verbatim>\<open>try\<close>. The same error raised while the events are
  read ends the run as a \<^verbatim>\<open>CloudformationException\<close>, as C8 says of both reads.
\<close>

theorem tail_describe_stacks_error_unwrapped:
  "tail_stack_events_gen c
     (\<lparr>describe_stacks = Inl (ClientError message), stack_events_responses = responses\<rparr> # polls) =
     ([], Raised (ClientError message)) \<and>
   tail_stack_events_gen c
     (\<lparr>describe_stacks = Inr [stack], stack_events_responses = [Inl (ClientError message)]\<rparr> # polls) =
     ([], Raised (CloudformationException message))"
  by (simp add: poll_cycle_def describe_stack_events_def)

text \<open>
  C9. Against a backend whose \<^verbatim>\<open>list_stacks\<close> honours the status filter,
  \<^verbatim>\<open>stack_exists(name)\<close> returns whether some stack of that name has a status
  of \<^verbatim>\<open>VALID_STACK_STATUSES\<close> other than \<^verbatim>\<open>DELETE_COMPLETE\<close>; when every
  stack of that name is in \<^verbatim>\<open>DELETE_COMPLETE\<close> it returns \<^verbatim>\<open>False\<close>.
\<close>

theorem stack_exists_iff:
  assumes "honours_filter list_stacks backend_stacks"
  shows "stack_exists list_stacks name =
           Inr (\<exists>s \<in> set backend_stacks.
                  StackName s = name \<and> StackStatus s \<in> set VALID_STACK_STATUSES \<and>
                  StackStatus s \<noteq> ''DELETE_COMPLETE'') \<and>
         ((\<forall>s \<in> set backend_stacks. StackName s = name \<longrightarrow> StackStatus s = ''DELETE_COMPLETE'') \<longrightarrow>
            stack_exists list_stacks name = Inr False)"
  unfolding stack_exists_honoured [OF assms] by blast

text \<open>
  The theorem on a backend that holds a deleted stack \<^verbatim>\<open>old\<close> and an updated stack
  \<^verbatim>\<open>web\<close>: the first is reported as not existing, the second as existing.
\<close>

theorem stack_exists_iff_witness:
  "honours_filter
     (one_page_backend
        [\<lparr>StackName = ''old'', StackStatus = ''DELETE_COMPLETE''\<rparr>,
         \<lparr>StackName = ''web'', StackStatus = ''UPDATE_COMPLETE''\<rparr>])
     [\<lparr>StackName = ''old'', StackStatus = ''DELETE_COMPLETE''\<rparr>,
      \<lparr>StackName = ''web'', StackStatus = ''UPDATE_COMPLETE''\<rparr>] \<and>
   stack_exists
     (one_page_backend
        [\<lparr>StackName = ''old'', StackStatus = ''DELETE_COMPLETE''\<rparr>,
         \<lparr>StackName = ''web'', StackStatus = ''UPDATE_COMPLETE''\<rparr>]) ''old'' = Inr False \<and>
   stack_exists
     (one_page_backend
        [\<lparr>StackName = ''old'', StackStatus = ''DELETE_COMPLETE''\<rparr>,
         \<lparr>StackName = ''web'', StackStatus = ''UPDATE_COMPLETE''\<rparr>]) ''web'' = Inr True"
proof -
  let ?b = "[\<lparr>StackName = ''old'', StackStatus = ''DELETE_COMPLETE''\<rparr>,
             \<lparr>StackName = ''web'', StackStatus = ''UPDATE_COMPLETE''\<rparr>]"
  have h: "honours_filter (one_page_backend ?b) ?b" by (rule one_page_backend_honours)
  have 1: "stack_exists (one_page_backend ?b) ''old'' = Inr False"
    using stack_exists_iff [OF h, of "''old''", THEN conjunct2] by simp
  have v: "''UPDATE_COMPLETE'' \<in> set VALID_STACK_STATUSES"
    by (simp add: VALID_STACK_STATUSES_def)
  have 2: "stack_exists (one_page_backend ?b) ''web'' = Inr True"
    using stack_exists_iff [OF h, of "''web''", THEN conjunct1] v by simp
  from h 1 2 show ?thesis by (intro conjI)
qed

section \<open>The claims about template parameters\<close>

text \<open>
  C4. \<^verbatim>\<open>resolve_template_parameters\<close> returns a list exactly when every
  parameter of the template has a default or a value in the datasource collection.
  The list then holds one pair per item of the template's parameters, in the order of
  the iteration. The key of the pair is \<^verbatim>\<open>str\<close> of the parameter's key. Its
  value is \<^verbatim>\<open>str\<close> of the default when the definition has a default and the
  key is not in the datasource collection; in every other case, and so also when the
  source overrides a default, the recursive lookup has found a value, and the pair's
  value is \<^verbatim>\<open>str\<close> of it, a sequence first being replaced by the strings of
  its elements joined with commas.
\<close>

theorem resolve_template_parameters_values:
  "((\<exists>parameters. resolve_template_parameters template ds = Inr parameters) \<longleftrightarrow>
      (\<forall>item \<in> set (parameter_items template).
         Default (snd item) \<noteq> None \<or> contains ds (fst item))) \<and>
   (\<forall>parameters. resolve_template_parameters template ds = Inr parameters \<longrightarrow>
      length parameters = length (parameter_items template) \<and>
      (\<forall>i key pd. i < length (parameter_items template) \<and>
                   parameter_items template ! i = (key, pd) \<longrightarrow>
         ParameterKey (parameters ! i) = py_str key \<and>
         (\<forall>dflt. Default pd = Some dflt \<and> \<not> contains ds key \<longrightarrow>
            ParameterValue (parameters ! i) = py_str dflt) \<and>
         (Default pd = None \<or> contains ds key \<longrightarrow>
            (\<exists>v. get_parameter_recursive ds key = Inr v \<and>
               ParameterValue (parameters ! i) =
                 py_str (case v of PList xs \<Rightarrow> PStr (join '','' (map py_str xs))
                                 | PStr s \<Rightarrow> PStr s)))))"
proof (intro conjI allI impI)
  show "(\<exists>parameters. resolve_template_parameters template ds = Inr parameters) \<longleftrightarrow>
      (\<forall>item \<in> set (parameter_items template).
         Default (snd item) \<noteq> None \<or> contains ds (fst item))"
    by (rule resolve_returns_iff)
next
  fix parameters
  assume r: "resolve_template_parameters template ds = Inr parameters"
  show "length parameters = length (parameter_items template)"
    using list_all2_lengthD [OF resolve_template_parameters_all2 [OF r]] by simp
next
  fix parameters i key pd
  assume r: "resolve_template_parameters template ds = Inr parameters"
  assume a: "i < length (parameter_items template) \<and> parameter_items template ! i = (key, pd)"
  then show "ParameterKey (parameters ! i) = py_str key"
    using resolved_at(1) [OF r] by blast
  show "ParameterValue (parameters ! i) = py_str dflt"
    if "Default pd = Some dflt \<and> \<not> contains ds key" for dflt
    using resolved_at(2) [OF r] a that by blast
  show "\<exists>v. get_parameter_recursive ds key = Inr v \<and>
               ParameterValue (parameters ! i) =
                 py_str (case v of PList xs \<Rightarrow> PStr (join '','' (map py_str xs))
                                 | PStr s \<Rightarrow> PStr s)"
    if "Default pd = None \<or> contains ds key"
    using resolved_at(3) [OF r] a that by blast
qed

text \<open>
  The theorem on the template whose default for \<^verbatim>\<open>KeyName\<close> the source
  overrides: the function returns, the value for \<^verbatim>\<open>KeyName\<close> is \<^verbatim>\<open>k1\<close>
  of the source and not the default, and the value for \<^verbatim>\<open>Subnets\<close> is the
  flattened list.
\<close>

theorem resolve_template_parameters_values_witness:
  "list_all (\<lambda>item. Default (snd item) \<noteq> None \<or> contains override_source (fst item))
     (parameter_items \<lparr>Parameters = Some override_parameters\<rparr>) \<and>
   (\<exists>parameters.
      resolve_template_parameters \<lparr>Parameters = Some override_parameters\<rparr> override_source =
        Inr parameters) \<and>
   resolve_template_parameters \<lparr>Parameters = Some override_parameters\<rparr> override_source =
     Inr [\<lparr>ParameterKey = ''KeyName'', ParameterValue = ''k1''\<rparr>,
          \<lparr>ParameterKey = ''Subnets'', ParameterValue = ''1,2''\<rparr>] \<and>
   parameter_items \<lparr>Parameters = Some override_parameters\<rparr> ! 0 =
     (PStr ''KeyName'', \<lparr>Default = Some (PStr ''dflt'')\<rparr>) \<and>
   contains override_source (PStr ''KeyName'') \<and>
   get_parameter_recursive override_source (PStr ''KeyName'') = Inr (PStr ''k1'') \<and>
   ParameterValue ([\<lparr>ParameterKey = ''KeyName'', ParameterValue = ''k1''\<rparr>,
                    \<lparr>ParameterKey = ''Subnets'', ParameterValue = ''1,2''\<rparr>] ! 0) =
     py_str (PStr ''k1'') \<and>
   parameter_items \<lparr>Parameters = Some override_parameters\<rparr> ! 1 =
     (PStr ''Subnets'', \<lparr>Default = None\<rparr>) \<and>
   get_parameter_recursive override_source (PStr ''Subnets'') = Inr (PList [PStr ''1'', PStr ''2'']) \<and>
   ParameterValue ([\<lparr>ParameterKey = ''KeyName'', ParameterValue = ''k1''\<rparr>,
                    \<lparr>ParameterKey = ''Subnets'', ParameterValue = ''1,2''\<rparr>] ! 1) =
     py_str (PStr (join '','' (map py_str [PStr ''1'', PStr ''2''])))"
proof -
  let ?t = "\<lparr>Parameters = Some override_parameters\<rparr>"
  let ?ps = "[\<lparr>ParameterKey = ''KeyName'', ParameterValue = ''k1''\<rparr>,
              \<lparr>ParameterKey = ''Subnets'', ParameterValue = ''1,2''\<rparr>]"
  note t = resolve_template_parameters_values [of ?t override_source]
  have h: "\<forall>item \<in> set (parameter_items ?t).
             Default (snd item) \<noteq> None \<or> contains override_source (fst item)"
    by (simp add: parameter_items_def override_parameters_def override_source_def contains_def)
  then have h': "list_all (\<lambda>item. Default (snd item) \<noteq> None \<or> contains override_source (fst item))
     (parameter_items ?t)"
    by (simp add: list_all_iff)
  have e: "\<exists>parameters. resolve_template_parameters ?t override_source = Inr parameters"
    using t [THEN conjunct1, THEN iffD2, OF h] .
  note v = t [THEN conjunct2, rule_format, OF override_run, THEN conjunct2, rule_format]
  have i0: "0 < length (parameter_items ?t)" and i1: "1 < length (parameter_items ?t)"
    by (simp_all add: parameter_items_def override_parameters_def)
  have n0: "parameter_items ?t ! 0 = (PStr ''KeyName'', \<lparr>Default = Some (PStr ''dflt'')\<rparr>)"
    and n1: "parameter_items ?t ! 1 = (PStr ''Subnets'', \<lparr>Default = None\<rparr>)"
    by (simp_all add: parameter_items_def override_parameters_def)
  have c0: "contains override_source (PStr ''KeyName'')"
    by (simp add: override_source_def contains_def)
  have g0: "get_parameter_recursive override_source (PStr ''KeyName'') = Inr (PStr ''k1'')"
    by (simp add: override_source_def)
  have g1: "get_parameter_recursive override_source (PStr ''Subnets'') =
              Inr (PList [PStr ''1'', PStr ''2''])"
    by (simp add: override_source_def)
  have d1: "Default \<lparr>Default = None\<rparr> = None" by simp
  from v [OF conjI [OF i0 n0], THEN conjunct2, THEN conjunct2, THEN mp, OF disjI2 [OF c0]]
  have p0: "ParameterValue (?ps ! 0) = py_str (PStr ''k1'')"
    unfolding g0 by auto
  from v [OF conjI [OF i1 n1], THEN conjunct2, THEN conjunct2, THEN mp, OF disjI1 [OF d1]]
  have p1: "ParameterValue (?ps ! 1) =
              py_str (PStr (join '','' (map py_str [PStr ''1'', PStr ''2''])))"
    unfolding g1 by auto
  from h' e override_run n0 c0 g0 p0 n1 g1 p1 show ?thesis by (intro conjI)
qed

text \<open>
  C5. When the template holds a parameter without a default whose key is absent from
  every scope of the datasource collection, \<^verbatim>\<open>resolve_template_parameters\<close>
  returns no list: it raises the lookup's \<open>ParameterResolutionError\<close>, for a
  parameter of the template that has no default and is absent from every scope (the
  first such parameter that the iteration meets).
\<close>

theorem missing_parameter_raises:
  assumes "(key, pd) \<in> set (parameter_items template)"
    and "Default pd = None"
    and "\<forall>scope \<in> set ds. map_of scope key = None"
  shows "\<exists>k d. (k, d) \<in> set (parameter_items template) \<and> Default d = None \<and>
           (\<forall>scope \<in> set ds. map_of scope k = None) \<and>
           resolve_template_parameters template ds = Inl (ParameterResolutionError k)"
proof -
  from assms(3) have "\<not> contains ds key"
    by (simp add: contains_def list_ex_iff)
  from resolve_loop_missing [OF assms(1,2) this, of "[]"]
  show ?thesis
    unfolding resolve_template_parameters_def by (auto simp: contains_def list_ex_iff)
qed

text \<open>
  The theorem on the sample template and a source that holds \<^verbatim>\<open>b\<close> only: the
  error names \<^verbatim>\<open>c\<close>.
\<close>

theorem missing_parameter_raises_witness:
  "(PStr ''c'', \<lparr>Default = None\<rparr>) \<in> set (parameter_items \<lparr>Parameters = Some sample_parameters\<rparr>) \<and>
   Default \<lparr>Default = None\<rparr> = None \<and>
   list_all (\<lambda>scope. map_of scope (PStr ''c'') = None) [[(PStr ''b'', PStr ''y'')]] \<and>
   (\<exists>k. resolve_template_parameters \<lparr>Parameters = Some sample_parameters\<rparr>
          [[(PStr ''b'', PStr ''y'')]] = Inl (ParameterResolutionError k)) \<and>
   resolve_template_parameters \<lparr>Parameters = Some sample_parameters\<rparr>
     [[(PStr ''b'', PStr ''y'')]] = Inl (ParameterResolutionError (PStr ''c''))"
proof -
  let ?t = "\<lparr>Parameters = Some sample_parameters\<rparr>"
  let ?ds = "[[(PStr ''b'', PStr ''y'')]]"
  have m: "(PStr ''c'', \<lparr>Default = None\<rparr>) \<in> set (parameter_items ?t)"
    by (simp add: parameter_items_def sample_parameters_def)
  have d: "Default \<lparr>Default = None\<rparr> = None" by simp
  have a: "\<forall>scope \<in> set ?ds. map_of scope (PStr ''c'') = None" by simp
  have a': "list_all (\<lambda>scope. map_of scope (PStr ''c'') = None) ?ds" by simp
  from missing_parameter_raises [OF m d a]
  have e: "\<exists>k. resolve_template_parameters ?t ?ds = Inl (ParameterResolutionError k)"
    by blast
  have r: "resolve_template_parameters ?t ?ds = Inl (ParameterResolutionError (PStr ''c''))"
    by (simp add: resolve_template_parameters_def parameter_items_def sample_parameters_def
        contains_def)
  from m d a' e r show ?thesis by (intro conjI)
qed

text \<open>
  C6, for the order of \<^verbatim>\<open>iteritems()\<close>. The list that
  \<^verbatim>\<open>resolve_template_parameters\<close> returns follows, pair by pair, the order in
  which the dict of the template's parameters enumerates its items; being a function of
  the template, that enumeration and the datasource collection, it is the same list at
  every call. When the enumeration holds the declared items (\<open>wf_dict\<close>), the list
  has one pair per declared parameter and the keys of the declared parameters.
\<close>

theorem resolved_in_iteration_order:
  assumes "resolve_template_parameters template ds = Inr parameters"
  shows "map ParameterKey parameters = map (\<lambda>item. py_str (fst item)) (parameter_items template) \<and>
         (\<forall>d. Parameters template = Some d \<and> wf_dict d \<longrightarrow>
            length parameters = length (declared d) \<and>
            set (map ParameterKey parameters) = (\<lambda>item. py_str (fst item)) ` set (declared d))"
proof -
  have all2: "list_all2 (resolved_as_specified ds) (parameter_items template) parameters"
    using assms by (rule resolve_template_parameters_all2)
  have keys: "map ParameterKey parameters = map (\<lambda>item. py_str (fst item)) (parameter_items template)"
    using all2
    by (induction rule: list_all2_induct) (auto simp: resolved_as_specified_def)
  have "length parameters = length (declared d) \<and>
        set (map ParameterKey parameters) = (\<lambda>item. py_str (fst item)) ` set (declared d)"
    if "Parameters template = Some d \<and> wf_dict d" for d
  proof -
    from that have items: "parameter_items template = iteritems d"
      by (simp add: parameter_items_def)
    from that have s: "set (iteritems d) = set (declared d)" by (simp add: wf_dict_def)
    have "length parameters = length (iteritems d)"
      using list_all2_lengthD [OF all2] items by simp
    then have "length parameters = length (declared d)"
      using wf_dict_length [of d] that by simp
    moreover have "set (map ParameterKey parameters) = (\<lambda>item. py_str (fst item)) ` set (declared d)"
      unfolding keys items using s by simp
    ultimately show ?thesis by simp
  qed
  with keys show ?thesis by blast
qed

text \<open>The theorem on the sample template and source.\<close>

theorem resolved_in_iteration_order_witness:
  "resolve_template_parameters \<lparr>Parameters = Some sample_parameters\<rparr> sample_source =
     Inr [\<lparr>ParameterKey = ''a'', ParameterValue = ''x''\<rparr>,
          \<lparr>ParameterKey = ''c'', ParameterValue = ''1,2''\<rparr>,
          \<lparr>ParameterKey = ''b'', ParameterValue = ''y''\<rparr>] \<and>
   Parameters \<lparr>Parameters = Some sample_parameters\<rparr> = Some sample_parameters \<and>
   wf_dict sample_parameters \<and>
   map ParameterKey [\<lparr>ParameterKey = ''a'', ParameterValue = ''x''\<rparr>,
          \<lparr>ParameterKey = ''c'', ParameterValue = ''1,2''\<rparr>,
          \<lparr>ParameterKey = ''b'', ParameterValue = ''y''\<rparr>] =
     map (\<lambda>item. py_str (fst item)) (parameter_items \<lparr>Parameters = Some sample_parameters\<rparr>) \<and>
   length [\<lparr>ParameterKey = ''a'', ParameterValue = ''x''\<rparr>,
          \<lparr>ParameterKey = ''c'', ParameterValue = ''1,2''\<rparr>,
          \<lparr>ParameterKey = ''b'', ParameterValue = ''y''\<rparr>] = length (declared sample_parameters)"
proof -
  let ?t = "\<lparr>Parameters = Some sample_parameters\<rparr>"
  note t = resolved_in_iteration_order [OF sample_run]
  have p: "Parameters ?t = Some sample_parameters" by simp
  have w: "wf_dict sample_parameters"
    by (simp add: wf_dict_def sample_parameters_def) blast
  from t [THEN conjunct2, rule_format, OF conjI [OF p w], THEN conjunct1]
    t [THEN conjunct1] sample_run p w
  show ?thesis by (intro conjI)
qed

text \<open>
  C6 as it is written, for the declared order, fails on the sample template: it
  declares \<^verbatim>\<open>a\<close>, \<^verbatim>\<open>b\<close>, \<^verbatim>\<open>c\<close>, the dict enumerates \<^verbatim>\<open>a\<close>,
  \<^verbatim>\<open>c\<close>, \<^verbatim>\<open>b\<close>, and the keys of the returned list are in the second order.
\<close>

theorem declared_order_counterexample:
  "wf_dict sample_parameters \<and>
   resolve_template_parameters \<lparr>Parameters = Some sample_parameters\<rparr> sample_source =
     Inr [\<lparr>ParameterKey = ''a'', ParameterValue = ''x''\<rparr>,
          \<lparr>ParameterKey = ''c'', ParameterValue = ''1,2''\<rparr>,
          \<lparr>ParameterKey = ''b'', ParameterValue = ''y''\<rparr>] \<and>
   map (\<lambda>item. py_str (fst item)) (declared sample_parameters) = [''a'', ''b'', ''c''] \<and>
   map ParameterKey [\<lparr>ParameterKey = ''a'', ParameterValue = ''x''\<rparr>,
          \<lparr>ParameterKey = ''c'', ParameterValue = ''1,2''\<rparr>,
          \<lparr>ParameterKey = ''b'', ParameterValue = ''y''\<rparr>] \<noteq>
     map (\<lambda>item. py_str (fst item)) (declared sample_parameters)"
proof -
  have w: "wf_dict sample_parameters"
    by (simp add: wf_dict_def sample_parameters_def) blast
  have d: "map (\<lambda>item. py_str (fst item)) (declared sample_parameters) = [''a'', ''b'', ''c'']"
    by (simp add: sample_parameters_def)
  have n: "map ParameterKey [\<lparr>ParameterKey = ''a'', ParameterValue = ''x''\<rparr>,
          \<lparr>ParameterKey = ''c'', ParameterValue = ''1,2''\<rparr>,
          \<lparr>ParameterKey = ''b'', ParameterValue = ''y''\<rparr>] \<noteq>
     map (\<lambda>item. py_str (fst item)) (declared sample_parameters)"
    unfolding d by simp
  from w sample_run d n show ?thesis by (intro conjI)
qed

text \<open>
  C10. For the item at position \<open>i\<close> of the iteration: when its default is used, the
  value of the pair is \<^verbatim>\<open>str\<close> of the default, so that a list-valued default
  appears as the \<^verbatim>\<open>repr\<close> of the list, in brackets, and never as its elements
  joined with commas; flattening is applied to a value that the lookup returns, and
  there to a list, which has \<^verbatim>\<open>__iter__\<close>, and not to a string, which has none
  and is passed on as it is.
\<close>

theorem default_not_flattened:
  assumes "resolve_template_parameters template ds = Inr parameters"
    and "i < length (parameter_items template)"
    and "parameter_items template ! i = (key, pd)"
  shows "(\<forall>dflt. Default pd = Some dflt \<and> \<not> contains ds key \<longrightarrow>
            ParameterValue (parameters ! i) = py_str dflt) \<and>
         (\<forall>xs. Default pd = Some (PList xs) \<and> \<not> contains ds key \<longrightarrow>
            ParameterValue (parameters ! i) = ''['' @ join '', '' (map py_repr xs) @ '']'' \<and>
            ParameterValue (parameters ! i) \<noteq> join '','' (map py_str xs)) \<and>
         (\<forall>xs. (Default pd = None \<or> contains ds key) \<and>
               get_parameter_recursive ds key = Inr (PList xs) \<longrightarrow>
            hasattr_iter (PList xs) \<and>
            ParameterValue (parameters ! i) = join '','' (map py_str xs)) \<and>
         (\<forall>s. (Default pd = None \<or> contains ds key) \<and>
               get_parameter_recursive ds key = Inr (PStr s) \<longrightarrow>
            \<not> hasattr_iter (PStr s) \<and> ParameterValue (parameters ! i) = s)"
proof (intro conjI allI impI)
  fix dflt
  assume "Default pd = Some dflt \<and> \<not> contains ds key"
  then show "ParameterValue (parameters ! i) = py_str dflt"
    using resolved_at(2) [OF assms] by blast
next
  fix xs
  assume a: "Default pd = Some (PList xs) \<and> \<not> contains ds key"
  then have v: "ParameterValue (parameters ! i) = py_str (PList xs)"
    using resolved_at(2) [OF assms] by blast
  then show "ParameterValue (parameters ! i) = ''['' @ join '', '' (map py_repr xs) @ '']''"
    by simp
  show "ParameterValue (parameters ! i) \<noteq> join '','' (map py_str xs)"
    unfolding v by (rule str_list_not_joined)
next
  fix xs
  assume a: "(Default pd = None \<or> contains ds key) \<and>
               get_parameter_recursive ds key = Inr (PList xs)"
  show "hasattr_iter (PList xs)" by simp
  from a resolved_at(3) [OF assms]
  show "ParameterValue (parameters ! i) = join '','' (map py_str xs)" by auto
next
  fix s
  assume a: "(Default pd = None \<or> contains ds key) \<and>
               get_parameter_recursive ds key = Inr (PStr s)"
  show "\<not> hasattr_iter (PStr s)" by simp
  from a resolved_at(3) [OF assms]
  show "ParameterValue (parameters ! i) = s" by auto
qed

text \<open>
  The theorem on a template whose parameter \<^verbatim>\<open>Subnets\<close> has the default
  \<^verbatim>\<open>['1', '2']\<close>: the value is the ten characters \<^verbatim>\<open>['1', '2']\<close>, not
  \<^verbatim>\<open>1,2\<close>.
\<close>

theorem default_not_flattened_witness:
  "resolve_template_parameters \<lparr>Parameters = Some list_default_parameters\<rparr> [] =
     Inr [\<lparr>ParameterKey = ''Subnets'',
           ParameterValue = [CHR ''['', CHR 0x27, CHR ''1'', CHR 0x27, CHR '','', CHR '' '',
                             CHR 0x27, CHR ''2'', CHR 0x27, CHR '']'']\<rparr>] \<and>
   0 < length (parameter_items \<lparr>Parameters = Some list_default_parameters\<rparr>) \<and>
   parameter_items \<lparr>Parameters = Some list_default_parameters\<rparr> ! 0 =
     (PStr ''Subnets'', \<lparr>Default = Some (PList [PStr ''1'', PStr ''2''])\<rparr>) \<and>
   Default \<lparr>Default = Some (PList [PStr ''1'', PStr ''2''])\<rparr> = Some (PList [PStr ''1'', PStr ''2'']) \<and>
   \<not> contains [] (PStr ''Subnets'') \<and>
   ParameterValue
     ([\<lparr>ParameterKey = ''Subnets'',
        ParameterValue = [CHR ''['', CHR 0x27, CHR ''1'', CHR 0x27, CHR '','', CHR '' '',
                          CHR 0x27, CHR ''2'', CHR 0x27, CHR '']'']\<rparr>] ! 0) \<noteq>
     join '','' (map py_str [PStr ''1'', PStr ''2'']) \<and>
   join '','' (map py_str [PStr ''1'', PStr ''2'']) = ''1,2''"
proof -
  let ?t = "\<lparr>Parameters = Some list_default_parameters\<rparr>"
  let ?xs = "[PStr ''1'', PStr ''2'']"
  have i: "0 < length (parameter_items ?t)"
    by (simp add: parameter_items_def list_default_parameters_def)
  have n: "parameter_items ?t ! 0 = (PStr ''Subnets'', \<lparr>Default = Some (PList ?xs)\<rparr>)"
    by (simp add: parameter_items_def list_default_parameters_def)
  have d: "Default \<lparr>Default = Some (PList ?xs)\<rparr> = Some (PList ?xs)" by simp
  have c: "\<not> contains [] (PStr ''Subnets'')" by (simp add: contains_def)
  note t = default_not_flattened [OF list_default_run i n]
  from t [THEN conjunct2, THEN conjunct1, rule_format, OF conjI [OF d c], THEN conjunct2]
  have v: "ParameterValue
     ([\<lparr>ParameterKey = ''Subnets'',
        ParameterValue = [CHR ''['', CHR 0x27, CHR ''1'', CHR 0x27, CHR '','', CHR '' '',
                          CHR 0x27, CHR ''2'', CHR 0x27, CHR '']'']\<rparr>] ! 0) \<noteq>
     join '','' (map py_str ?xs)" .
  have j: "join '','' (map py_str ?xs) = ''1,2''" by simp
  from list_default_run i n d c v j show ?thesis by (intro conjI)
qed

end
